theory Spec2Isabelle
  imports Main "HOL-Library.Sublist"
begin

section \<open>Exceptions, log records and strings\<close>

text \<open>
  The exceptions that the scraper and the dashboard can meet. \<open>WebDriverException\<close> stands
  for any browser fault that is neither a missing element nor a timeout.
\<close>

datatype exn =
    NoSuchElementException
  | TimeoutException
  | WebDriverException
  | KeyError string
  | AttributeError
  | OverflowError
  | OSError
  | ZeroDivisionError
  | TypeError
  | StreamlitAPIException

datatype level = DEBUG | INFO | WARNING | ERROR

text \<open>
  \<open>str.strip()\<close> removes white space at both ends. A character stands for a code point
  below 256; among these Python counts as white space the tab, the line feed, the
  vertical tab, the form feed, the carriage return, the four separators \<open>0x1c\<close> to
  \<open>0x1f\<close>, the blank, the next-line control \<open>0x85\<close> and the no-break space \<open>0xa0\<close>.
\<close>

definition is_space :: "char \<Rightarrow> bool" where
  "is_space c = (of_char c \<in> set [9, 10, 11, 12, 13, 28, 29, 30, 31, 32, 133, 160 :: nat])"

definition strip :: "string \<Rightarrow> string" where
  "strip s = rev (dropWhile is_space (rev (dropWhile is_space s)))"

text \<open>\<open>pat in s\<close> for strings: \<open>pat\<close> occurs in \<open>s\<close> as a contiguous block.\<close>

fun contains :: "string \<Rightarrow> string \<Rightarrow> bool" where
  "contains [] pat = (pat = [])"
| "contains (c # cs) pat = (prefix pat (c # cs) \<or> contains cs pat)"

text \<open>\<open>s.replace('x', '')\<close>: every occurrence of the one character is removed.\<close>

definition replace_x :: "string \<Rightarrow> string" where
  "replace_x s = filter (\<lambda>c. c \<noteq> CHR ''x'') s"

section \<open>Dictionaries in insertion order\<close>

text \<open>
  A Python \<open>dict\<close> keeps its keys in the order of their first insertion, and the claims
  speak about that order, so a dictionary is an association list with distinct keys.
\<close>

type_synonym dict = "(string \<times> string) list"

fun dict_set :: "dict \<Rightarrow> string \<Rightarrow> string \<Rightarrow> dict" where
  "dict_set [] k v = [(k, v)]"
| "dict_set ((k', v') # d) k v =
     (if k' = k then (k, v) # d else (k', v') # dict_set d k v)"

text \<open>\<open>d.get(k, default)\<close> and \<open>d[k]\<close>; the second raises \<open>KeyError\<close>.\<close>

definition dict_get :: "dict \<Rightarrow> string \<Rightarrow> string \<Rightarrow> string" where
  "dict_get d k dflt = (case map_of d k of None \<Rightarrow> dflt | Some v \<Rightarrow> v)"

definition dict_item :: "dict \<Rightarrow> string \<Rightarrow> exn + string" where
  "dict_item d k = (case map_of d k of None \<Rightarrow> Inl (KeyError k) | Some v \<Rightarrow> Inr v)"

definition keys :: "dict \<Rightarrow> string list" where
  "keys d = map fst d"

section \<open>The scraper object and the browser\<close>

text \<open>
  A page is what \<open>find_element(By.CSS_SELECTOR, sel)\<close> sees: the text of the first element
  that matches the selector, or nothing.
\<close>

type_synonym page = "string \<Rightarrow> string option"

definition find_element :: "page \<Rightarrow> string \<Rightarrow> exn + string" where
  "find_element pg sel =
     (case pg sel of None \<Rightarrow> Inl NoSuchElementException | Some txt \<Rightarrow> Inr txt)"

text \<open>The calls that reach the browser, in the order they are made.\<close>

datatype call = Get string | WaitFor string nat | Quit

text \<open>
  The fields of \<open>ImprovedWebScraper\<close>, and with them what the object does to the world:
  the clock \<open>time.time()\<close> in milliseconds, the records handed to the logger, the browser
  calls and the output file once it has been opened: its name and the strings written to
  it, one for each call of \<open>write\<close>, in order. The text of the file is these strings put
  together; a written string is one line of the file only if its sole line feed is its
  last character. The field \<open>driver\<close> says whether \<open>self.driver\<close> holds a browser.
  \<open>duration\<close> is in seconds. A log message is kept without the values that an f-string
  splices into it.
\<close>

record scraper =
  duration :: int
  live_prediction :: bool
  start_time :: int
  url_crash_plane :: string
  driver :: bool
  clock :: int
  logs :: "(level \<times> string) list"
  calls :: "call list"
  out_file :: "(string \<times> string list) option"

datatype 'a result = Ok 'a scraper | Raised exn scraper

definition log_msg :: "level \<Rightarrow> string \<Rightarrow> scraper \<Rightarrow> scraper" where
  "log_msg l m s = s\<lparr>logs := logs s @ [(l, m)]\<rparr>"

definition sleep :: "int \<Rightarrow> scraper \<Rightarrow> scraper" where
  "sleep ms s = s\<lparr>clock := clock s + ms\<rparr>"

definition browser_call :: "call \<Rightarrow> scraper \<Rightarrow> scraper" where
  "browser_call c s = s\<lparr>calls := calls s @ [c]\<rparr>"

section \<open>extract_data\<close>

definition elements :: "(string \<times> string) list" where
  "elements =
     [(''Value X'', ''text.crash-game__counter[font-size='83'][x='1160'][y='356']''),
      (''Value Bets'', ''span.crash-total__value.crash-total__value--bets.crash-text''),
      (''Value Prize'', ''span.crash-total__value.crash-total__value--prize.crash-text''),
      (''Value Players'', ''span.crash-total__value.crash-total__value--players.crash-text'')]"

text \<open>
  The \<open>for\<close> loop inside the \<open>try\<close>: it fills \<open>data\<close> key by key and stops at the
  first lookup that raises; what was stored before stays in \<open>data\<close>.
\<close>

fun extract_loop :: "page \<Rightarrow> (string \<times> string) list \<Rightarrow> dict \<Rightarrow> exn option \<times> dict" where
  "extract_loop pg [] data = (None, data)"
| "extract_loop pg ((key, selector) # rest) data =
     (case find_element pg selector of
        Inl e \<Rightarrow> (Some e, data)
      | Inr txt \<Rightarrow> extract_loop pg rest (dict_set data key (strip txt)))"

text \<open>Only \<open>NoSuchElementException\<close> is caught; the dictionary is returned as it stands.\<close>

definition extract_data :: "page \<Rightarrow> scraper \<Rightarrow> dict result" where
  "extract_data pg s =
     (let s1 = log_msg DEBUG ''Extracting data from page elements.'' s
      in case extract_loop pg elements [] of
           (None, data) \<Rightarrow> Ok data (log_msg DEBUG ''Extracted data'' s1)
         | (Some NoSuchElementException, data) \<Rightarrow>
             Ok data (log_msg WARNING ''One or more elements not found'' s1)
         | (Some e, data) \<Rightarrow> Raised e s1)"

text \<open>The elements that are on the page, up to the first one that is not.\<close>

definition found :: "page \<Rightarrow> (string \<times> string) list \<Rightarrow> (string \<times> string) list" where
  "found pg es = takeWhile (\<lambda>(key, selector). pg selector \<noteq> None) es"


section \<open>Wall-clock time and its formats\<close>

text \<open>
  \<open>datetime.now(pytz.timezone('Africa/Casablanca'))\<close> is a reading of the local wall
  clock. A reading is the number of seconds that its calendar fields (year to second) are
  away from 1970-01-01 00:00:00 on the same wall clock; \<open>strftime\<close> prints the fields,
  not the offset, and adding a \<open>timedelta\<close> to a localized value moves the fields and
  keeps the offset, so the number is all that matters. The fraction of a second is dropped:
  no format prints it and the duration is a whole number of seconds.
\<close>

type_synonym datetime = int

definition digit :: "nat \<Rightarrow> char" where
  "digit n = ''0123456789'' ! (n mod 10)"

fun digits :: "nat \<Rightarrow> string" where
  "digits n = (if n < 10 then [digit n] else digits (n div 10) @ [digit n])"

declare digits.simps [simp del]

definition zfill :: "nat \<Rightarrow> string \<Rightarrow> string" where
  "zfill w s = replicate (w - length s) (CHR ''0'') @ s"

text \<open>The proleptic Gregorian date of a day number (day 0 is 1970-01-01).\<close>

definition civil_from_days :: "int \<Rightarrow> int \<times> int \<times> int" where
  "civil_from_days z0 =
     (let z = z0 + 719468;
          era = z div 146097;
          doe = z - era * 146097;
          yoe = (doe - doe div 1460 + doe div 36524 - doe div 146096) div 365;
          y = yoe + era * 400;
          doy = doe - (365 * yoe + yoe div 4 - yoe div 100);
          mp = (5 * doy + 2) div 153;
          d = doy - (153 * mp + 2) div 5 + 1;
          m = (if mp < 10 then mp + 3 else mp - 9)
      in (if m \<le> 2 then y + 1 else y, m, d))"

definition date_str :: "datetime \<Rightarrow> string" where
  "date_str t =
     (case civil_from_days (t div 86400) of
        (y, m, d) \<Rightarrow>
          zfill 4 (digits (nat y)) @ ''-'' @ zfill 2 (digits (nat m)) @ ''-'' @
          zfill 2 (digits (nat d)))"

definition hh :: "datetime \<Rightarrow> string" where
  "hh t = zfill 2 (digits (nat ((t mod 86400) div 3600)))"

definition mm :: "datetime \<Rightarrow> string" where
  "mm t = zfill 2 (digits (nat ((t mod 3600) div 60)))"

definition ss :: "datetime \<Rightarrow> string" where
  "ss t = zfill 2 (digits (nat (t mod 60)))"

text \<open>\<open>strftime('%Y-%m-%d %H:%M:%S')\<close> and \<open>strftime('%Y-%m-%d_%H_%M_%S')\<close>.\<close>

definition strftime_colon :: "datetime \<Rightarrow> string" where
  "strftime_colon t = date_str t @ '' '' @ hh t @ '':'' @ mm t @ '':'' @ ss t"

definition strftime_underscore :: "datetime \<Rightarrow> string" where
  "strftime_underscore t = date_str t @ ''_'' @ hh t @ ''_'' @ mm t @ ''_'' @ ss t"

text \<open>\<open>s.replace(':', '_')\<close>.\<close>

definition replace_colon :: "string \<Rightarrow> string" where
  "replace_colon s = map (\<lambda>c. if c = CHR '':'' then CHR ''_'' else c) s"

text \<open>
  \<open>datetime + timedelta(seconds=d)\<close> raises \<open>OverflowError\<close> when the sum leaves the
  years 1 to 9999.
\<close>

definition min_datetime :: datetime where
  "min_datetime = - 62135596800"

definition max_datetime :: datetime where
  "max_datetime = 253402300799"

definition add_seconds :: "datetime \<Rightarrow> int \<Rightarrow> exn + datetime" where
  "add_seconds t d =
     (if min_datetime \<le> t + d \<and> t + d \<le> max_datetime then Inr (t + d)
      else Inl OverflowError)"

section \<open>get_timestamp, get_output_file_name, get_log_file_name\<close>

text \<open>
  Each function reads the wall clock itself. \<open>get_timestamp\<close> reads it once. The two
  file name functions read it twice: the first reading becomes \<open>morocco_time\<close>, from
  which the end time is computed, and the second is printed as the start.
\<close>

definition get_timestamp :: "datetime \<Rightarrow> string" where
  "get_timestamp now = strftime_colon now"

definition get_output_file_name :: "datetime \<times> datetime \<Rightarrow> scraper \<Rightarrow> exn + string" where
  "get_output_file_name now s =
     (let morocco_time = fst now;
          start_time_str = replace_colon (get_timestamp (snd now))
      in case add_seconds morocco_time (duration s) of
           Inl e \<Rightarrow> Inl e
         | Inr end_time \<Rightarrow>
             (let end_time_str = strftime_underscore end_time
              in if live_prediction s then
                   Inr (''pipeline_ml/live_predictor/live_prediction/data_brute_'' @
                        start_time_str @ ''_to_'' @ end_time_str @ ''.csv'')
                 else
                   Inr (''data_brute_'' @ start_time_str @ ''_to_'' @ end_time_str @ ''.csv'')))"

definition get_log_file_name :: "datetime \<times> datetime \<Rightarrow> scraper \<Rightarrow> exn + string" where
  "get_log_file_name now s =
     (let morocco_time = fst now;
          start_time_str = strftime_underscore (snd now)
      in case add_seconds morocco_time (duration s) of
           Inl e \<Rightarrow> Inl e
         | Inr end_time \<Rightarrow>
             (let end_time_str = strftime_underscore end_time
              in if live_prediction s then
                   Inr (''pipeline_ml/live_predictor/live_prediction/logs/log_'' @
                        start_time_str @ ''_to_'' @ end_time_str @ ''.txt'')
                 else
                   Inr (''logs/log_'' @ start_time_str @ ''_to_'' @ end_time_str @ ''.txt'')))"

section \<open>fetch_data\<close>

text \<open>
  What one polling cycle meets. \<open>WebDriverWait(driver, 30).until(...)\<close> for the
  \<open>svg\<close> elements either finds them, or raises \<open>TimeoutException\<close>, or the browser fails
  (\<open>until\<close> itself swallows \<open>NoSuchElementException\<close> while it polls). \<open>browser_ms\<close> is
  the time the browser calls of the cycle take, \<open>dom\<close> the page that \<open>extract_data\<close>
  reads, \<open>wall\<close> the wall-clock reading of \<open>get_timestamp\<close>.
\<close>

datatype wait_result = Located | TimedOut | Crashed

record cycle =
  svg_wait :: wait_result
  browser_ms :: nat
  dom :: page
  wall :: datetime

text \<open>
  What a call of \<open>fetch_data\<close> meets: the outcome of \<open>driver.get(url)\<close>, the two
  wall-clock readings of \<open>get_output_file_name\<close>, the outcome of \<open>open\<close>, and the
  cycles, numbered from 0.
\<close>

record fetch_env =
  load :: "exn option"
  name_clock :: "datetime \<times> datetime"
  open_err :: "exn option"
  cycles :: "nat \<Rightarrow> cycle"

definition newline :: char where
  "newline = CHR 0x0A"

definition header :: string where
  "header = ''Timestamp,Value X,Value Bets,Value Prize,Value Players'' @ [newline]"

definition file_write :: "string \<Rightarrow> scraper \<Rightarrow> scraper" where
  "file_write line s =
     s\<lparr>out_file := map_option (\<lambda>(name, written). (name, written @ [line])) (out_file s)\<rparr>"

text \<open>
  The f-string of the row. Its fields are evaluated from left to right, and the first key
  that \<open>data\<close> lacks raises \<open>KeyError\<close>.
\<close>

definition format_line :: "string \<Rightarrow> dict \<Rightarrow> exn + string" where
  "format_line timestamp data =
     (case dict_item data ''Value X'' of
        Inl e \<Rightarrow> Inl e
      | Inr x \<Rightarrow>
     (case dict_item data ''Value Bets'' of
        Inl e \<Rightarrow> Inl e
      | Inr bets \<Rightarrow>
     (case dict_item data ''Value Prize'' of
        Inl e \<Rightarrow> Inl e
      | Inr prize \<Rightarrow>
     (case dict_item data ''Value Players'' of
        Inl e \<Rightarrow> Inl e
      | Inr players \<Rightarrow>
          Inr (timestamp @ '','' @ replace_x x @ '','' @ bets @ '','' @ prize @ '','' @
               players @ [newline])))))"

text \<open>The body of the inner \<open>try\<close>.\<close>

definition poll_once :: "cycle \<Rightarrow> scraper \<Rightarrow> unit result" where
  "poll_once c s =
     (let s1 = sleep (int (browser_ms c)) (browser_call (WaitFor ''svg'' 30) s)
      in case svg_wait c of
           TimedOut \<Rightarrow> Raised TimeoutException s1
         | Crashed \<Rightarrow> Raised WebDriverException s1
         | Located \<Rightarrow>
             (case extract_data (dom c) s1 of
                Raised e s2 \<Rightarrow> Raised e s2
              | Ok data s2 \<Rightarrow>
                  if data = [] \<or> dict_get data ''Value X'' [] = [] then
                    Ok () (sleep 3000 (log_msg DEBUG
                      ''No valid data found or Value X empty, waiting before retrying.'' s2))
                  else
                    (case format_line (get_timestamp (wall c)) data of
                       Inl e \<Rightarrow> Raised e s2
                     | Inr line \<Rightarrow>
                         Ok () (sleep 800 (log_msg INFO ''Data extracted and written''
                           (file_write line s2))))))"

text \<open>
  One pass through the \<open>while\<close> body with its handler: \<open>NoSuchElementException\<close> leaves
  the loop by \<open>break\<close>, any other exception leaves it for the outer handler.
\<close>

datatype step = Continue scraper | Break scraper | Escape exn scraper

definition loop_body :: "cycle \<Rightarrow> scraper \<Rightarrow> step" where
  "loop_body c s =
     (case poll_once c s of
        Ok u s' \<Rightarrow> Continue s'
      | Raised e s' \<Rightarrow>
          if e = NoSuchElementException then
            Break (log_msg WARNING ''The crash plane URL changed or elements not found.'' s')
          else Escape e s')"

definition running :: "scraper \<Rightarrow> bool" where
  "running s = (clock s - start_time s < duration s * 1000)"

lemma extract_loop_raises:
  "fst (extract_loop pg es data) = None \<or> fst (extract_loop pg es data) = Some NoSuchElementException"
  by (induction pg es data rule: extract_loop.induct)
     (auto simp: find_element_def split: option.splits)

lemma extract_data_Ok:
  "\<exists>data s'. extract_data pg s = Ok data s' \<and> data = snd (extract_loop pg elements [])"
proof -
  obtain r data where eq: "extract_loop pg elements [] = (r, data)"
    by (cases "extract_loop pg elements []")
  have "r = None \<or> r = Some NoSuchElementException"
    using extract_loop_raises [of pg elements "[]"] eq by simp
  then show ?thesis using eq by (auto simp: extract_data_def Let_def)
qed

lemma extract_data_frame:
  "extract_data pg s = Ok data s' \<Longrightarrow>
   clock s' = clock s \<and> start_time s' = start_time s \<and> duration s' = duration s \<and>
   out_file s' = out_file s \<and> calls s' = calls s \<and> driver s' = driver s"
  by (auto simp: extract_data_def Let_def log_msg_def split: prod.splits option.splits exn.splits)

lemma poll_once_Ok:
  assumes "poll_once c s = Ok u s'"
  obtains data s2 where
    "svg_wait c = Located"
    "extract_data (dom c) (sleep (int (browser_ms c)) (browser_call (WaitFor ''svg'' 30) s))
       = Ok data s2"
    "(data = [] \<or> dict_get data ''Value X'' [] = []) \<and>
       s' = sleep 3000 (log_msg DEBUG
              ''No valid data found or Value X empty, waiting before retrying.'' s2)
     \<or> \<not> (data = [] \<or> dict_get data ''Value X'' [] = []) \<and>
       (\<exists>line. format_line (get_timestamp (wall c)) data = Inr line \<and>
          s' = sleep 800 (log_msg INFO ''Data extracted and written'' (file_write line s2)))"
proof -
  have loc: "svg_wait c = Located"
    using assms by (cases "svg_wait c") (simp_all add: poll_once_def Let_def)
  obtain data s2 where ex:
    "extract_data (dom c) (sleep (int (browser_ms c)) (browser_call (WaitFor ''svg'' 30) s))
       = Ok data s2"
    using extract_data_Ok by blast
  from assms loc ex have
    "(if data = [] \<or> dict_get data ''Value X'' [] = [] then
        Ok () (sleep 3000 (log_msg DEBUG
          ''No valid data found or Value X empty, waiting before retrying.'' s2))
      else
        (case format_line (get_timestamp (wall c)) data of
           Inl e \<Rightarrow> Raised e s2
         | Inr line \<Rightarrow>
             Ok () (sleep 800 (log_msg INFO ''Data extracted and written''
               (file_write line s2))))) = Ok u s'"
    by (simp add: poll_once_def Let_def)
  then have
    "(data = [] \<or> dict_get data ''Value X'' [] = []) \<and>
       s' = sleep 3000 (log_msg DEBUG
              ''No valid data found or Value X empty, waiting before retrying.'' s2)
     \<or> \<not> (data = [] \<or> dict_get data ''Value X'' [] = []) \<and>
       (\<exists>line. format_line (get_timestamp (wall c)) data = Inr line \<and>
          s' = sleep 800 (log_msg INFO ''Data extracted and written'' (file_write line s2)))"
    by (auto split: if_splits sum.splits)
  with loc ex show ?thesis by (rule that)
qed

lemma loop_body_Continue:
  assumes "loop_body c s = Continue s'"
  shows "clock s + 800 \<le> clock s' \<and> start_time s' = start_time s \<and> duration s' = duration s"
proof -
  from assms obtain u where ok: "poll_once c s = Ok u s'"
    by (auto simp: loop_body_def split: result.splits if_splits)
  from ok obtain data s2 where
    ex: "extract_data (dom c) (sleep (int (browser_ms c)) (browser_call (WaitFor ''svg'' 30) s))
           = Ok data s2"
    and s': "s' = sleep 3000 (log_msg DEBUG
                ''No valid data found or Value X empty, waiting before retrying.'' s2)
             \<or> (\<exists>line. s' = sleep 800 (log_msg INFO ''Data extracted and written''
                    (file_write line s2)))"
    by (rule poll_once_Ok) blast
  from extract_data_frame [OF ex]
  have s2: "clock s \<le> clock s2" "start_time s2 = start_time s" "duration s2 = duration s"
    by (simp_all add: sleep_def browser_call_def)
  from s' s2 show ?thesis
    by (auto simp: sleep_def log_msg_def file_write_def)
qed

text \<open>
  The \<open>while\<close> loop. Every pass that comes back to the test has slept, so the clock has
  moved towards the end of the session: the loop is a total function.
\<close>

function fetch_loop :: "(nat \<Rightarrow> cycle) \<Rightarrow> nat \<Rightarrow> scraper \<Rightarrow> unit result" where
  "fetch_loop env i s =
     (if running s then
        (case loop_body (env i) s of
           Continue s' \<Rightarrow> fetch_loop env (Suc i) s'
         | Break s' \<Rightarrow> Ok () s'
         | Escape e s' \<Rightarrow> Raised e s')
      else Ok () s)"
  by pat_completeness auto
termination
proof (relation "measure (\<lambda>(env, i, s). nat (start_time s + duration s * 1000 - clock s))")
  show "wf (measure (\<lambda>(env, i, s). nat (start_time s + duration s * 1000 - clock s)))"
    by simp
next
  fix env :: "nat \<Rightarrow> cycle" and i :: nat and s s' :: scraper
  assume run: "running s" and step: "loop_body (env i) s = Continue s'"
  from loop_body_Continue [OF step] run
  show "((env, Suc i, s'), (env, i, s))
          \<in> measure (\<lambda>(env, i, s). nat (start_time s + duration s * 1000 - clock s))"
    by (simp add: running_def)
qed

declare fetch_loop.simps [simp del]

text \<open>The body of the outer \<open>try\<close>, and \<open>fetch_data\<close> with its handler, which only logs.\<close>

definition fetch_try :: "fetch_env \<Rightarrow> string \<Rightarrow> scraper \<Rightarrow> unit result" where
  "fetch_try env url s =
     (if \<not> driver s then Raised AttributeError s
      else
        (let s1 = browser_call (Get url) s
         in case load env of
              Some e \<Rightarrow> Raised e s1
            | None \<Rightarrow>
                (let s2 = sleep 5000 s1
                 in case get_output_file_name (name_clock env) s2 of
                      Inl e \<Rightarrow> Raised e s2
                    | Inr output_file \<Rightarrow>
                        (let s3 = log_msg INFO ''Writing scraped data to'' s2
                         in case open_err env of
                              Some e \<Rightarrow> Raised e s3
                            | None \<Rightarrow>
                                (case fetch_loop (cycles env) 0
                                        (s3\<lparr>out_file := Some (output_file, [header])\<rparr>) of
                                   Raised e s' \<Rightarrow> Raised e s'
                                 | Ok u s' \<Rightarrow>
                                     Ok () (log_msg INFO
                                       ''Data fetching completed successfully.'' s'))))))"

definition fetch_data :: "fetch_env \<Rightarrow> string \<Rightarrow> scraper \<Rightarrow> scraper" where
  "fetch_data env url s =
     (case fetch_try env url (log_msg INFO ''Fetching data from URL'' s) of
        Ok u s' \<Rightarrow> s'
      | Raised e s' \<Rightarrow> log_msg ERROR ''Error while fetching data'' s')"

definition state_of :: "'a result \<Rightarrow> scraper" where
  "state_of r = (case r of Ok u s \<Rightarrow> s | Raised e s \<Rightarrow> s)"

section \<open>Notions used to state the properties of the loop\<close>

text \<open>The dictionary that \<open>extract_data\<close> returns on a page.\<close>

definition extracted :: "page \<Rightarrow> dict" where
  "extracted pg = snd (extract_loop pg elements [])"

definition step_state :: "step \<Rightarrow> scraper" where
  "step_state r = (case r of Continue s \<Rightarrow> s | Break s \<Rightarrow> s | Escape e s \<Rightarrow> s)"

text \<open>
  The reading of the multiplier that the specification describes: the text without its
  last character when that character is not a digit.
\<close>

definition spec_strip_unit :: "string \<Rightarrow> string" where
  "spec_strip_unit s =
     (if s \<noteq> [] \<and> last s \<notin> set ''0123456789'' then butlast s else s)"

text \<open>
  Concrete sessions and pages. A page is given by the texts of the four elements, in
  the order of \<open>elements\<close>; \<open>None\<close> is an element that the page does not have.
\<close>

definition page_of :: "string option list \<Rightarrow> page" where
  "page_of texts sel =
     (case map_of (zip (map snd elements) texts) sel of None \<Rightarrow> None | Some t \<Rightarrow> t)"

definition session :: "int \<Rightarrow> int \<Rightarrow> scraper" where
  "session d now =
     \<lparr>duration = d, live_prediction = False, start_time = 0, url_crash_plane = [],
      driver = True, clock = now, logs = [], calls = [], out_file = None\<rparr>"

definition steady :: "string option list \<Rightarrow> cycle" where
  "steady texts = \<lparr>svg_wait = Located, browser_ms = 0, dom = page_of texts, wall = 1793779200\<rparr>"

definition full_page :: "string option list" where
  "full_page = [Some ''3.25x'', Some ''120'', Some ''400'', Some ''15'']"

definition no_multiplier :: "string option list" where
  "no_multiplier = [None, Some ''120'', Some ''400'', Some ''15'']"

definition empty_multiplier :: "string option list" where
  "empty_multiplier = [Some [], Some ''120'', Some ''400'', Some ''15'']"

definition no_prize :: "string option list" where
  "no_prize = [Some ''3.25x'', Some ''120'', None, Some ''15'']"

definition fetch_of :: "(nat \<Rightarrow> cycle) \<Rightarrow> fetch_env" where
  "fetch_of cs = \<lparr>load = None, name_clock = (1793779200, 1793779200), open_err = None, cycles = cs\<rparr>"

section \<open>The lines of the output file\<close>

text \<open>
  The lines of a text, without their line feeds: a line ends at its line feed, and what
  follows the last line feed is a line if it is not empty.
\<close>

fun lines_of :: "string \<Rightarrow> string list" where
  "lines_of [] = []"
| "lines_of (c # cs) =
     (if c = newline then [] # lines_of cs
      else (case lines_of cs of [] \<Rightarrow> [[c]] | l # ls \<Rightarrow> (c # l) # ls))"

definition file_lines :: "string list \<Rightarrow> string list" where
  "file_lines written = lines_of (concat written)"

text \<open>A written string that is one line: it ends with its only line feed.\<close>

definition one_line :: "string \<Rightarrow> bool" where
  "one_line w = (w \<noteq> [] \<and> last w = newline \<and> newline \<notin> set (butlast w))"

text \<open>Every string written after the header satisfies \<open>P\<close>.\<close>

definition rows_all :: "(string \<Rightarrow> bool) \<Rightarrow> string \<Rightarrow> scraper \<Rightarrow> bool" where
  "rows_all P name s =
     (\<exists>rows. out_file s = Some (name, header # rows) \<and> list_all P rows)"

text \<open>No text on any page of the session holds a line feed.\<close>

definition single_line_pages :: "(nat \<Rightarrow> cycle) \<Rightarrow> bool" where
  "single_line_pages cs = (\<forall>i sel tx. dom (cs i) sel = Some tx \<longrightarrow> newline \<notin> set tx)"

text \<open>A page whose last field shows a second line, which reads like the header.\<close>

definition header_in_players :: "string option list" where
  "header_in_players =
     [Some ''3.25x'', Some ''120'', Some ''400'',
      Some (''15'' @ [newline] @ ''Timestamp,Value X,Value Bets,Value Prize,Value Players'')]"

section \<open>search_for_url\<close>

text \<open>
  What one load of the landing page meets: the outcome of \<open>driver.get(base_url)\<close>; the
  frame of the game, which is \<open>None\<close> when no such \<open>iframe\<close> appears before the wait
  times out and otherwise the value of its \<open>src\<close> attribute (\<open>None\<close> when it has none);
  and the time the wait takes when the frame is there.
\<close>

record attempt =
  nav :: "exn option"
  frame :: "string option option"
  found_after :: nat

definition base_url :: string where
  "base_url = ''https://1xbet.com/en/allgamesentrance/crash''"

definition iframe_selector :: string where
  "iframe_selector = ''iframe.games-project-frame__item''"

definition final_url :: "string \<Rightarrow> string" where
  "final_url iframe_src =
     (if prefix ''/'' iframe_src then ''https://1xbet.com'' @ iframe_src else iframe_src)"

text \<open>
  The wait for the frame with the given timeout in seconds, the lookup of the frame and of
  its \<open>src\<close>, as both attempts make them; they differ in the timeout and in what they log.
  A wait that times out is taken to last its timeout; the wait of the library may overrun
  it by one polling interval of half a second.
\<close>

definition locate_frame :: "nat \<Rightarrow> attempt \<Rightarrow> string \<Rightarrow> string \<Rightarrow> scraper \<Rightarrow> string result" where
  "locate_frame timeout a found_msg missing_msg s =
     (let s1 = browser_call (WaitFor iframe_selector timeout) s
      in case frame a of
           None \<Rightarrow> Raised TimeoutException (sleep (int timeout * 1000) s1)
         | Some src \<Rightarrow>
             (let s2 = sleep (int (found_after a)) s1
              in case src of
                   None \<Rightarrow> Raised NoSuchElementException (log_msg ERROR missing_msg s2)
                 | Some iframe_src \<Rightarrow>
                     if iframe_src \<noteq> [] then
                       Ok (final_url iframe_src) (log_msg INFO found_msg s2)
                     else Raised NoSuchElementException (log_msg ERROR missing_msg s2)))"

text \<open>The exceptions that the two \<open>except\<close> clauses of \<open>search_for_url\<close> catch.\<close>

definition caught :: "exn \<Rightarrow> bool" where
  "caught e = (e = NoSuchElementException \<or> e = TimeoutException)"

definition first_try :: "attempt \<Rightarrow> scraper \<Rightarrow> string result" where
  "first_try a s =
     (let s1 = browser_call (Get base_url) s
      in case nav a of
           Some e \<Rightarrow> Raised e s1
         | None \<Rightarrow>
             locate_frame 30 a ''Found crash game URL''
               ''Failed to extract crash game URL from iframe src.'' s1)"

definition retry :: "attempt \<Rightarrow> scraper \<Rightarrow> string result" where
  "retry a s =
     (let s1 = sleep 2000 (log_msg WARNING ''Encountered an issue loading the page, retrying'' s);
          s2 = browser_call (Get base_url) s1
      in case nav a of
           Some e \<Rightarrow> Raised e s2
         | None \<Rightarrow>
             (case locate_frame 10 a ''Found crash game URL on retry''
                     ''Failed to extract crash game URL after retry (no src found).''
                     (sleep 5000 s2) of
                Ok url s3 \<Rightarrow> Ok url s3
              | Raised e s3 \<Rightarrow>
                  if caught e then
                    Raised NoSuchElementException
                      (log_msg ERROR ''Failed to extract crash game URL after retry.'' s3)
                  else Raised e s3))"

text \<open>
  \<open>env 0\<close> is what the first load meets and \<open>env 1\<close> what the second meets. Without a
  browser, \<open>self.driver.get\<close> raises \<open>AttributeError\<close>, which no clause catches.
\<close>

definition search_for_url :: "(nat \<Rightarrow> attempt) \<Rightarrow> scraper \<Rightarrow> string result" where
  "search_for_url env s =
     (let s0 = log_msg INFO ''Searching for the crash game URL.'' s
      in if \<not> driver s0 then Raised AttributeError s0
         else
           (case first_try (env 0) s0 of
              Ok url s1 \<Rightarrow> Ok url s1
            | Raised e s1 \<Rightarrow> if caught e then retry (env 1) s1 else Raised e s1))"

section \<open>start_scraping and close_driver\<close>

text \<open>
  \<open>close_driver\<close> meets the outcome of \<open>self.driver.quit()\<close>. When \<open>quit\<close> raises, the
  assignment \<open>self.driver = None\<close> after it is not reached and the exception leaves
  \<open>close_driver\<close>.
\<close>

definition close_driver :: "exn option \<Rightarrow> scraper \<Rightarrow> unit result" where
  "close_driver fault s =
     (if driver s then
        (let s1 = browser_call Quit (log_msg INFO ''Closing the Chrome driver.'' s)
         in case fault of
              Some e \<Rightarrow> Raised e s1
            | None \<Rightarrow>
                Ok () (log_msg INFO ''Chrome driver closed successfully.''
                         (s1\<lparr>driver := False\<rparr>)))
      else Ok () (log_msg WARNING ''Driver was not initialized or already closed.'' s))"

record scrape_env =
  landing :: "nat \<Rightarrow> attempt"
  fetching :: fetch_env
  quit_fault :: "exn option"

text \<open>
  The \<open>try\<close> with its \<open>except Exception\<close>, which only logs, and the \<open>finally\<close>, which is
  \<open>close_driver\<close>. \<open>fetch_data\<close> keeps its own exceptions. An exception of the
  \<open>finally\<close> clause leaves \<open>start_scraping\<close>.
\<close>

definition start_scraping :: "scrape_env \<Rightarrow> scraper \<Rightarrow> unit result" where
  "start_scraping env s =
     (let s0 = log_msg INFO ''Scraping will run for the duration in seconds.'' s;
          s1 = (case search_for_url (landing env) s0 of
                  Raised e s' \<Rightarrow> log_msg ERROR ''Error in scraping process'' s'
                | Ok url s' \<Rightarrow> fetch_data (fetching env) url (s'\<lparr>url_crash_plane := url\<rparr>))
      in close_driver (quit_fault env) s1)"

text \<open>The exception that a call ends with, if any.\<close>

definition raised :: "'a result \<Rightarrow> exn option" where
  "raised r = (case r of Ok u s \<Rightarrow> None | Raised e s \<Rightarrow> Some e)"

text \<open>
  What a step leaves of the browser: the handle is kept and the calls made so far are
  extended by calls other than \<open>quit\<close>.
\<close>

definition keeps_browser :: "scraper \<Rightarrow> scraper \<Rightarrow> bool" where
  "keeps_browser s s' =
     (driver s' = driver s \<and> (\<exists>cs. calls s' = calls s @ cs \<and> Quit \<notin> set cs))"

text \<open>A landing page that never shows the frame, and one that shows it at once.\<close>

definition no_frame :: attempt where
  "no_frame = \<lparr>nav = None, frame = None, found_after = 0\<rparr>"

definition game_frame :: attempt where
  "game_frame = \<lparr>nav = None, frame = Some (Some ''/games/crash''), found_after = 0\<rparr>"

section \<open>The dashboard\<close>

text \<open>
  \<open>st.session_state\<close>, the four entries that \<open>ScraperUI\<close> keeps there. The process handle
  is absent or is the child with its status: alive (\<open>poll()\<close> is \<open>None\<close>), gone on its
  own, or terminated by the dashboard. Times are \<open>time.time()\<close> in milliseconds.
\<close>

datatype child = Alive | Exited | Terminated

record session_state =
  scraping_started :: bool
  scraping_start_time :: "int option"
  scraping_process :: "child option"
  scraping_error :: bool

text \<open>The fields of \<open>ScraperUI\<close>; the duration is in seconds.\<close>

record scraper_ui =
  logs_dir :: string
  ui_duration :: int

text \<open>
  What one run of the script meets: the control that started it, the clock, the \<open>*.txt\<close>
  files of the log directory (\<open>None\<close> when the directory is not there) with their times
  of modification and their lines, and whether the child has ended by itself since the
  last run.
\<close>

datatype click = NoClick | Refresh | StopScraping | StartScraping

record log_file =
  path :: string
  mtime :: int
  content :: "string list"

record tick =
  clicked :: click
  time_now :: int
  log_dir :: "log_file list option"
  child_exited :: bool

text \<open>What a run draws, in order. Numbers stand for the texts that show them.\<close>

datatype widget =
    StartButton
  | SuccessBox string
  | ErrorBox string
  | InfoBox string
  | WarningBox string
  | ProgressBar
  | TimeElapsed int
  | TimeLeft int
  | LogView "string list"
  | Displayed nat string
  | LastUpdated

definition lower_char :: "char \<Rightarrow> char" where
  "lower_char c =
     (case map_of (zip ''ABCDEFGHIJKLMNOPQRSTUVWXYZ'' ''abcdefghijklmnopqrstuvwxyz'') c of
        None \<Rightarrow> c
      | Some l \<Rightarrow> l)"

definition lower :: "string \<Rightarrow> string" where
  "lower s = map lower_char s"

definition init_state :: session_state where
  "init_state =
     \<lparr>scraping_started = False, scraping_start_time = None, scraping_process = None,
      scraping_error = False\<rparr>"

definition start_scraping_ui :: "int \<Rightarrow> session_state \<Rightarrow> session_state" where
  "start_scraping_ui now st =
     st\<lparr>scraping_started := True, scraping_start_time := Some now,
        scraping_process := Some Alive\<rparr>"

text \<open>
  \<open>_stop_scraping\<close>: a child that is alive is terminated and waited for; the error flag is
  set by the reason, as \<open>"error" in reason.lower()\<close>.
\<close>

definition stop_scraping :: "string \<Rightarrow> session_state \<Rightarrow> session_state \<times> widget list" where
  "stop_scraping reason st =
     (let p = (case scraping_process st of Some Alive \<Rightarrow> Some Terminated | other \<Rightarrow> other)
      in (st\<lparr>scraping_process := p, scraping_started := False,
             scraping_error := contains (lower reason) ''error''\<rparr>,
          [WarningBox reason]))"

text \<open>
  \<open>_get_most_recent_log_file\<close>: the sort by time of modification is stable, so among the
  newest files the first of the listing comes first.
\<close>

fun newest :: "log_file \<Rightarrow> log_file list \<Rightarrow> log_file" where
  "newest f [] = f"
| "newest f (g # gs) = (if mtime f < mtime g then newest g gs else newest f gs)"

definition get_most_recent_log_file :: "log_file list option \<Rightarrow> log_file option" where
  "get_most_recent_log_file dir =
     (case dir of
        None \<Rightarrow> None
      | Some [] \<Rightarrow> None
      | Some (f # fs) \<Rightarrow> Some (newest f fs))"

definition format_log_line :: "string \<Rightarrow> string" where
  "format_log_line line =
     (if contains line '' - INFO - '' then ''<p style='color: #0066cc;'>'' @ strip line @ ''</p>''
      else if contains line '' - WARNING - '' then
        ''<p style='color: #ff9900;'>'' @ strip line @ ''</p>''
      else if contains line '' - ERROR - '' then
        ''<p style='color: #cc0000;'>'' @ strip line @ ''</p>''
      else ''<p style='color: #666;'>'' @ strip line @ ''</p>'')"

definition display_logs :: "log_file list option \<Rightarrow> session_state \<Rightarrow> session_state \<times> widget list" where
  "display_logs dir st =
     (case get_most_recent_log_file dir of
        None \<Rightarrow> (st, [InfoBox ''No log files found yet. Please wait.''])
      | Some most_recent_log \<Rightarrow>
          (let lines = content most_recent_log
           in if lines = [] then (st, [InfoBox ''Log file exists but is empty. Please wait.''])
              else if list_ex (\<lambda>line. contains line '' - ERROR - '') lines then
                stop_scraping ''Scraping stopped due to an ERROR in logs.'' st
              else
                (let max_lines = 500;
                     shown = (if length lines > max_lines then drop (length lines - max_lines) lines
                              else lines)
                 in (st, [LogView (map format_log_line shown),
                          Displayed (length shown) (path most_recent_log), LastUpdated]))))"

text \<open>\<open>int(x)\<close> of a time in seconds, for a time given in milliseconds: towards zero.\<close>

definition whole_seconds :: "int \<Rightarrow> int" where
  "whole_seconds ms = (if 0 \<le> ms then ms div 1000 else - ((- ms) div 1000))"

text \<open>
  \<open>_handle_main_area\<close>. The first part draws the control that fits the state, the second
  part runs while scraping is going on. The division by a duration of zero raises, and
  so does \<open>st.progress\<close> for a negative ratio; what was drawn and stored before stays.
\<close>

definition main_controls :: "tick \<Rightarrow> session_state \<Rightarrow> session_state \<times> widget list" where
  "main_controls tk st =
     (if \<not> scraping_started st \<and> \<not> scraping_error st then
        (if clicked tk = StartScraping then
           (start_scraping_ui (time_now tk) st, [StartButton, SuccessBox ''Scraping started!''])
         else (st, [StartButton]))
      else if scraping_error st then
        (st, [ErrorBox ''Scraping stopped due to an ERROR in logs.''])
      else (st, [InfoBox ''Scraping is running...'']))"

definition handle_main_area ::
    "scraper_ui \<Rightarrow> tick \<Rightarrow> session_state \<Rightarrow> exn option \<times> session_state \<times> widget list" where
  "handle_main_area ui tk st =
     (case main_controls tk st of
        (st1, w1) \<Rightarrow>
          if scraping_started st1 \<and> \<not> scraping_error st1 then
            (case scraping_start_time st1 of
               None \<Rightarrow> (Some TypeError, st1, w1)
             | Some t0 \<Rightarrow>
                 (let elapsed = time_now tk - t0
                  in if ui_duration ui = 0 then (Some ZeroDivisionError, st1, w1)
                     else if (elapsed < 0 \<and> 0 < ui_duration ui) \<or> (0 < elapsed \<and> ui_duration ui < 0)
                     then (Some StreamlitAPIException, st1, w1)
                     else
                       (let time_left = max 0 (ui_duration ui * 1000 - elapsed);
                            w2 = w1 @ [ProgressBar, TimeElapsed (whole_seconds elapsed),
                                       TimeLeft (whole_seconds time_left)]
                        in case display_logs (log_dir tk) st1 of
                             (st2, w3) \<Rightarrow>
                               if elapsed \<ge> ui_duration ui * 1000 then
                                 (case stop_scraping ''Duration reached, scraping completed.'' st2 of
                                    (st3, w4) \<Rightarrow>
                                      (None, st3,
                                       w2 @ w3 @ [SuccessBox ''Scraping completed!''] @ w4))
                               else (None, st2, w2 @ w3))))
          else (None, st1, w1))"

text \<open>
  One run of the script: the child that has ended by itself is seen as such, the sidebar
  handles the stop control, then the main area is drawn.
\<close>

definition observe :: "tick \<Rightarrow> session_state \<Rightarrow> session_state" where
  "observe tk st =
     (if child_exited tk \<and> scraping_process st = Some Alive
      then st\<lparr>scraping_process := Some Exited\<rparr> else st)"

definition draw_sidebar :: "tick \<Rightarrow> session_state \<Rightarrow> session_state \<times> widget list" where
  "draw_sidebar tk st =
     (if clicked tk = StopScraping then stop_scraping ''Stopped manually by user.'' st
      else (st, []))"

definition run :: "scraper_ui \<Rightarrow> tick \<Rightarrow> session_state \<Rightarrow> exn option \<times> session_state \<times> widget list" where
  "run ui tk st =
     (case draw_sidebar tk (observe tk st) of
        (st1, w1) \<Rightarrow>
          (case handle_main_area ui tk st1 of
             (e, st2, w2) \<Rightarrow> (e, st2, w1 @ w2)))"

definition state_after :: "exn option \<times> session_state \<times> widget list \<Rightarrow> session_state" where
  "state_after r = fst (snd r)"

definition drawn :: "exn option \<times> session_state \<times> widget list \<Rightarrow> widget list" where
  "drawn r = snd (snd r)"

text \<open>A dashboard for a session of one minute, a running session, and a log with one error.\<close>

definition one_minute :: scraper_ui where
  "one_minute = \<lparr>logs_dir = ''logs'', ui_duration = 60\<rparr>"

definition scraping :: session_state where
  "scraping =
     \<lparr>scraping_started = True, scraping_start_time = Some 0, scraping_process = Some Alive,
      scraping_error = False\<rparr>"

definition error_log :: "log_file list option" where
  "error_log =
     Some [\<lparr>path = ''logs/log_2026-11-04_08_00_00_to_2026-11-04_08_01_00.txt'', mtime = 30,
            content =
              [''2026-11-04 08:00:00 - ImprovedWebScraper - INFO - ImprovedWebScraper initialized.'',
               ''2026-11-04 08:00:09 - ImprovedWebScraper - ERROR - Error while fetching data'',
               ''2026-11-04 08:00:09 - ImprovedWebScraper - INFO - Closing the Chrome driver.'']\<rparr>]"

definition refresh_at :: "int \<Rightarrow> log_file list option \<Rightarrow> tick" where
  "refresh_at now dir = \<lparr>clicked = Refresh, time_now = now, log_dir = dir, child_exited = False\<rparr>"

section \<open>Properties of extract_data\<close>

lemma dict_set_fresh: "k \<notin> set (map fst d) \<Longrightarrow> dict_set d k v = d @ [(k, v)]"
  by (induction d) auto

lemma extract_loop_keys:
  "distinct (map fst data @ map fst es) \<Longrightarrow>
   map fst (snd (extract_loop pg es data)) = map fst data @ map fst (found pg es)"
proof (induction pg es data rule: extract_loop.induct)
  case (1 pg data)
  then show ?case by (simp add: found_def)
next
  case (2 pg key selector rest data)
  show ?case
  proof (cases "pg selector")
    case None
    then show ?thesis by (simp add: find_element_def found_def)
  next
    case (Some tx)
    from "2.prems" have fresh: "key \<notin> set (map fst data)" by auto
    have upd: "dict_set data key (strip tx) = data @ [(key, strip tx)]"
      using fresh by (rule dict_set_fresh)
    from "2.prems" have "distinct (map fst (data @ [(key, strip tx)]) @ map fst rest)"
      by auto
    then have "map fst (snd (extract_loop pg rest (data @ [(key, strip tx)]))) =
               map fst (data @ [(key, strip tx)]) @ map fst (found pg rest)"
      using "2.IH" [of tx] Some upd by (simp add: find_element_def)
    then show ?thesis using Some upd by (simp add: find_element_def found_def)
  qed
qed

lemma distinct_elements: "distinct (map fst elements)"
  by (simp add: elements_def)

lemma extract_data_keys:
  assumes "extract_data pg s = Ok data s'"
  shows "keys data = map fst (found pg elements)"
proof -
  from extract_data_Ok [of pg s] assms have "data = snd (extract_loop pg elements [])"
    by auto
  then show ?thesis
    using extract_loop_keys [of "[]" elements pg] distinct_elements by (simp add: keys_def)
qed

text \<open>
  C10. \<open>extract_data\<close> never raises, whatever the page holds: it returns a dictionary, and
  the keys of that dictionary are the names of the elements found before the first missing
  one, in order, so they are a prefix of \<open>Value X, Value Bets, Value Prize, Value Players\<close>,
  and a later field is in the result only if every earlier field is.
\<close>

theorem extract_data_prefix:
  "\<exists>data s'. extract_data pg s = Ok data s' \<and>
     keys data = map fst (found pg elements) \<and>
     prefix (keys data) [''Value X'', ''Value Bets'', ''Value Prize'', ''Value Players''] \<and>
     (\<forall>i j. i \<le> j \<and> j < 4 \<and> map fst elements ! j \<in> set (keys data)
        \<longrightarrow> map fst elements ! i \<in> set (keys data))"
proof -
  obtain data s' where ok: "extract_data pg s = Ok data s'"
    using extract_data_Ok [of pg s] by blast
  have ks: "keys data = map fst (found pg elements)"
    using ok by (rule extract_data_keys)
  have tw: "found pg elements = take (length (found pg elements)) elements"
    unfolding found_def by (rule takeWhile_eq_take)
  define n where "n = length (found pg elements)"
  have kn: "keys data = take n (map fst elements)"
    using ks tw n_def by (metis take_map)
  have pre: "prefix (keys data) (map fst elements)"
    unfolding kn by (rule take_is_prefix)
  have later: "map fst elements ! i \<in> set (keys data)"
    if "i \<le> j" "j < 4" "map fst elements ! j \<in> set (keys data)" for i j
  proof -
    have len: "length (map fst elements) = 4" by (simp add: elements_def)
    have "j < n"
    proof (rule ccontr)
      assume "\<not> j < n"
      then have "n \<le> j" by simp
      from that(3) kn obtain m where m: "m < n" "m < 4" "map fst elements ! m = map fst elements ! j"
        using len by (auto simp: in_set_conv_nth)
      then have "m = j"
        using distinct_elements that(2) len nth_eq_iff_index_eq [of "map fst elements" m j]
        by simp
      with m(1) \<open>n \<le> j\<close> show False by simp
    qed
    then have "i < n" using that(1) by simp
    moreover have "i < 4" using that by simp
    ultimately show ?thesis
      using kn len by (auto simp: in_set_conv_nth intro!: exI [of _ i])
  qed
  have "map fst elements = [''Value X'', ''Value Bets'', ''Value Prize'', ''Value Players'']"
    by (simp add: elements_def)
  with ok ks pre later show ?thesis by auto
qed

theorem extract_data_prefix_witness:
  "\<exists>data s'. extract_data (page_of no_prize) (session 10 0) = Ok data s' \<and>
     keys data = [''Value X'', ''Value Bets'']"
proof -
  have "map fst (found (page_of no_prize) elements) = [''Value X'', ''Value Bets'']"
    by code_simp
  with extract_data_prefix [of "page_of no_prize" "session 10 0"] show ?thesis
    by auto
qed

section \<open>One polling cycle\<close>

lemma extract_data_extracted:
  "\<exists>s'. extract_data pg s = Ok (extracted pg) s' \<and>
     clock s' = clock s \<and> start_time s' = start_time s \<and> duration s' = duration s \<and>
     out_file s' = out_file s \<and> calls s' = calls s \<and> driver s' = driver s"
proof -
  obtain data s' where ok: "extract_data pg s = Ok data s'" and "data = extracted pg"
    using extract_data_Ok [of pg s] by (auto simp: extracted_def)
  with extract_data_frame [OF ok] show ?thesis by auto
qed

text \<open>What a cycle does when the wait has found the page: it skips or it writes a row.\<close>

lemma poll_once_skip:
  assumes "svg_wait c = Located" and "dict_get (extracted (dom c)) ''Value X'' [] = []"
  shows "\<exists>s'. poll_once c s = Ok () s' \<and> out_file s' = out_file s \<and>
           clock s' = clock s + int (browser_ms c) + 3000 \<and>
           calls s' = calls s @ [WaitFor ''svg'' 30]"
proof -
  define s1 where "s1 = sleep (int (browser_ms c)) (browser_call (WaitFor ''svg'' 30) s)"
  obtain s2 where ex: "extract_data (dom c) s1 = Ok (extracted (dom c)) s2"
    and fr: "clock s2 = clock s1" "out_file s2 = out_file s1" "calls s2 = calls s1"
    using extract_data_extracted [of "dom c" s1] by auto
  have s1: "clock s1 = clock s + int (browser_ms c)" "out_file s1 = out_file s"
    "calls s1 = calls s @ [WaitFor ''svg'' 30]"
    by (simp_all add: s1_def sleep_def browser_call_def)
  have "poll_once c s = Ok () (sleep 3000 (log_msg DEBUG
          ''No valid data found or Value X empty, waiting before retrying.'' s2))"
    using assms ex by (simp add: poll_once_def Let_def s1_def [symmetric])
  then show ?thesis using fr s1 by (simp add: sleep_def log_msg_def)
qed

lemma poll_once_row:
  assumes "svg_wait c = Located" and "dict_get (extracted (dom c)) ''Value X'' [] \<noteq> []"
    and "format_line (get_timestamp (wall c)) (extracted (dom c)) = Inr line"
  shows "\<exists>s'. poll_once c s = Ok () s' \<and>
           out_file s' = map_option (\<lambda>(name, written). (name, written @ [line])) (out_file s) \<and>
           clock s' = clock s + int (browser_ms c) + 800"
proof -
  define s1 where "s1 = sleep (int (browser_ms c)) (browser_call (WaitFor ''svg'' 30) s)"
  obtain s2 where ex: "extract_data (dom c) s1 = Ok (extracted (dom c)) s2"
    and fr: "clock s2 = clock s1" "out_file s2 = out_file s1"
    using extract_data_extracted [of "dom c" s1] by auto
  have s1: "clock s1 = clock s + int (browser_ms c)" "out_file s1 = out_file s"
    by (simp_all add: s1_def sleep_def browser_call_def)
  have ne: "extracted (dom c) \<noteq> []"
    using assms(2) by (auto simp: dict_get_def)
  have "poll_once c s = Ok () (sleep 800 (log_msg INFO ''Data extracted and written''
          (file_write line s2)))"
    using assms ex ne by (simp add: poll_once_def Let_def s1_def [symmetric])
  then show ?thesis using fr s1 by (simp add: sleep_def log_msg_def file_write_def)
qed

lemma poll_once_raise:
  assumes "poll_once c s = Raised e s'"
  shows "e \<noteq> NoSuchElementException \<and> out_file s' = out_file s \<and>
         clock s' = clock s + int (browser_ms c) \<and>
         start_time s' = start_time s \<and> duration s' = duration s"
proof -
  define s1 where "s1 = sleep (int (browser_ms c)) (browser_call (WaitFor ''svg'' 30) s)"
  obtain s2 where ex: "extract_data (dom c) s1 = Ok (extracted (dom c)) s2"
    and fr: "clock s2 = clock s1" "out_file s2 = out_file s1"
      "start_time s2 = start_time s1" "duration s2 = duration s1"
    using extract_data_extracted [of "dom c" s1] by auto
  have s1: "clock s1 = clock s + int (browser_ms c)" "out_file s1 = out_file s"
    "start_time s1 = start_time s" "duration s1 = duration s"
    by (simp_all add: s1_def sleep_def browser_call_def)
  have fl: "format_line ts data \<noteq> Inl NoSuchElementException" for ts data
    by (auto simp: format_line_def dict_item_def split: option.splits)
  show ?thesis
  proof (cases "svg_wait c")
    case Located
    with assms ex have
      "(if extracted (dom c) = [] \<or> dict_get (extracted (dom c)) ''Value X'' [] = [] then
          Ok () (sleep 3000 (log_msg DEBUG
            ''No valid data found or Value X empty, waiting before retrying.'' s2))
        else
          (case format_line (get_timestamp (wall c)) (extracted (dom c)) of
             Inl e \<Rightarrow> Raised e s2
           | Inr line \<Rightarrow>
               Ok () (sleep 800 (log_msg INFO ''Data extracted and written''
                 (file_write line s2))))) = Raised e s'"
      by (simp add: poll_once_def Let_def s1_def [symmetric])
    then have "format_line (get_timestamp (wall c)) (extracted (dom c)) = Inl e \<and> s' = s2"
      by (auto split: if_splits sum.splits)
    with fl fr s1 show ?thesis by metis
  next
    case TimedOut
    with assms have "e = TimeoutException" "s' = s1"
      by (simp_all add: poll_once_def Let_def s1_def [symmetric])
    with s1 show ?thesis by simp
  next
    case Crashed
    with assms have "e = WebDriverException" "s' = s1"
      by (simp_all add: poll_once_def Let_def s1_def [symmetric])
    with s1 show ?thesis by simp
  qed
qed

lemma loop_body_no_break: "loop_body c s \<noteq> Break s'"
proof
  assume "loop_body c s = Break s'"
  then obtain s'' where "poll_once c s = Raised NoSuchElementException s''"
    by (auto simp: loop_body_def split: result.splits if_splits)
  with poll_once_raise show False by blast
qed

lemma fetch_loop_step:
  "loop_body (env i) s = Continue s' \<Longrightarrow>
   fetch_loop env i s = (if running s then fetch_loop env (Suc i) s' else Ok () s)"
  by (subst fetch_loop.simps) simp

text \<open>
  C7. In a cycle whose extraction yields no multiplier (the key \<open>Value X\<close> is absent from
  the data, or its text is empty) no row is appended to the file, nothing is raised (the
  pass ends in \<open>Continue\<close>), the cycle has waited three seconds on top of the browser's
  time, and the loop goes on with the next cycle as long as the session has time left.
\<close>

theorem empty_multiplier_skips_cycle:
  assumes "svg_wait (env i) = Located"
    and "dict_get (extracted (dom (env i))) ''Value X'' [] = []"
  shows "\<exists>s'. loop_body (env i) s = Continue s' \<and>
           out_file s' = out_file s \<and>
           clock s' = clock s + int (browser_ms (env i)) + 3000 \<and>
           fetch_loop env i s = (if running s then fetch_loop env (Suc i) s' else Ok () s)"
proof -
  obtain s' where ok: "poll_once (env i) s = Ok () s'"
    and fr: "out_file s' = out_file s" "clock s' = clock s + int (browser_ms (env i)) + 3000"
    using poll_once_skip [OF assms, of s] by auto
  have step: "loop_body (env i) s = Continue s'"
    using ok by (simp add: loop_body_def)
  from step fr fetch_loop_step [of env i s s'] show ?thesis by simp
qed

text \<open>
  C1 (as amended). A failed lookup of a field element never takes the loop through its
  \<open>break\<close>: no pass of the loop body ends in \<open>Break\<close>, because \<open>extract_data\<close> keeps the
  exception to itself. When the element that is missing is the one of the multiplier, the
  extracted data are empty, the cycle writes no row, it waits three seconds on top of the
  browser's time, and the loop goes on with the next cycle as long as the session has
  time left.
\<close>

theorem missing_multiplier_element_retries:
  assumes "svg_wait (env i) = Located"
    and "find_element (dom (env i)) (snd (hd elements)) = Inl NoSuchElementException"
  shows "(\<forall>c t t'. loop_body c t \<noteq> Break t') \<and>
         extracted (dom (env i)) = [] \<and>
         (\<exists>s'. loop_body (env i) s = Continue s' \<and> out_file s' = out_file s \<and>
            clock s' = clock s + int (browser_ms (env i)) + 3000 \<and>
            fetch_loop env i s = (if running s then fetch_loop env (Suc i) s' else Ok () s))"
proof -
  have empty: "extracted (dom (env i)) = []"
    using assms(2) by (simp add: extracted_def elements_def)
  then have "dict_get (extracted (dom (env i))) ''Value X'' [] = []"
    by (simp add: dict_get_def)
  from poll_once_skip [OF assms(1) this, of s]
  obtain s' where ok: "poll_once (env i) s = Ok () s'"
    and fr: "out_file s' = out_file s \<and> clock s' = clock s + int (browser_ms (env i)) + 3000"
    by auto
  have step: "loop_body (env i) s = Continue s'"
    using ok by (simp add: loop_body_def)
  from loop_body_no_break empty step fr fetch_loop_step [of env i s s'] show ?thesis by blast
qed

theorem empty_multiplier_skips_cycle_witness:
  "\<exists>s'. loop_body (steady empty_multiplier) (session 10 0) = Continue s' \<and>
     out_file s' = None \<and> clock s' = 3000"
proof -
  have loc: "svg_wait (steady empty_multiplier) = Located"
    by (simp add: steady_def)
  have empty: "dict_get (extracted (dom (steady empty_multiplier))) ''Value X'' [] = []"
    by code_simp
  show ?thesis
    using empty_multiplier_skips_cycle [of "\<lambda>i. steady empty_multiplier" 0 "session 10 0"]
      loc empty
    by (auto simp: session_def steady_def)
qed

theorem missing_multiplier_element_retries_witness:
  "extracted (dom (steady no_multiplier)) = [] \<and>
   (\<exists>s'. loop_body (steady no_multiplier) (session 10 0) = Continue s' \<and> out_file s' = None)"
proof -
  have loc: "svg_wait (steady no_multiplier) = Located"
    by (simp add: steady_def)
  have missing:
    "find_element (dom (steady no_multiplier)) (snd (hd elements)) = Inl NoSuchElementException"
    by code_simp
  show ?thesis
    using missing_multiplier_element_retries [of "\<lambda>i. steady no_multiplier" 0 "session 10 0"]
      loc missing
    by (auto simp: session_def)
qed

text \<open>
  C1 (as stated) fails. The first cycle of this session does not find the element of the
  multiplier; the loop does not stop there: the two cycles after it run and write their
  rows.
\<close>

theorem missing_element_loop_goes_on:
  "find_element (page_of no_multiplier) (snd (hd elements)) = Inl NoSuchElementException \<and>
   out_file (fetch_data (fetch_of (\<lambda>i. steady (if i = 0 then no_multiplier else full_page)))
               ''https://1xbet.com/crash'' (session 9 0)) =
     Some (''data_brute_2026-11-04 08_00_00_to_2026-11-04_08_00_09.csv'',
           [header,
            ''2026-11-04 08:00:00,3.25,120,400,15'' @ [newline],
            ''2026-11-04 08:00:00,3.25,120,400,15'' @ [newline]])"
  by code_simp

section \<open>The rows and the header\<close>

lemma replace_x_trailing: "CHR ''x'' \<notin> set body \<Longrightarrow> replace_x (body @ ''x'') = body"
  by (auto simp: replace_x_def filter_id_conv)

lemma format_line_full:
  assumes "map_of data ''Value X'' = Some x" and "map_of data ''Value Bets'' = Some bets"
    and "map_of data ''Value Prize'' = Some prize"
    and "map_of data ''Value Players'' = Some players"
  shows "format_line ts data =
           Inr (ts @ '','' @ replace_x x @ '','' @ bets @ '','' @ prize @ '','' @ players @
                [newline])"
  using assms by (simp add: format_line_def dict_item_def)

text \<open>
  C3 (as amended). A cycle writes a row when the four fields were extracted and the
  multiplier is not empty. The row is the timestamp, the text of \<open>Value X\<close> without any
  lower-case \<open>x\<close>, and the texts of the three other fields as they were extracted, with
  commas between them. Where the multiplier is a text without \<open>x\<close> followed by one
  \<open>x\<close>, the field is that text without the unit.
\<close>

theorem written_row_fields:
  assumes "svg_wait c = Located"
    and "map_of (extracted (dom c)) ''Value X'' = Some x" and "x \<noteq> []"
    and "map_of (extracted (dom c)) ''Value Bets'' = Some bets"
    and "map_of (extracted (dom c)) ''Value Prize'' = Some prize"
    and "map_of (extracted (dom c)) ''Value Players'' = Some players"
    and "out_file s = Some (name, written)"
  shows "\<exists>s'. poll_once c s = Ok () s' \<and>
           out_file s' =
             Some (name, written @
               [get_timestamp (wall c) @ '','' @ replace_x x @ '','' @ bets @ '','' @ prize @
                '','' @ players @ [newline]]) \<and>
           (\<forall>body. x = body @ ''x'' \<and> CHR ''x'' \<notin> set body \<longrightarrow> replace_x x = body)"
proof -
  have nonempty: "dict_get (extracted (dom c)) ''Value X'' [] \<noteq> []"
    using assms(2,3) by (simp add: dict_get_def)
  have line: "format_line (get_timestamp (wall c)) (extracted (dom c)) =
                Inr (get_timestamp (wall c) @ '','' @ replace_x x @ '','' @ bets @ '','' @
                     prize @ '','' @ players @ [newline])"
    using assms(2,4,5,6) by (rule format_line_full)
  from poll_once_row [OF assms(1) nonempty line, of s] assms(7) replace_x_trailing
  show ?thesis by auto
qed

theorem written_row_fields_witness:
  "\<exists>s'. poll_once (steady full_page) ((session 10 0)\<lparr>out_file := Some (''out.csv'', [header])\<rparr>)
          = Ok () s' \<and>
     out_file s' =
       Some (''out.csv'', [header, ''2026-11-04 08:00:00,3.25,120,400,15'' @ [newline]])"
proof -
  have loc: "svg_wait (steady full_page) = Located"
    by (simp add: steady_def)
  have fields:
    "map_of (extracted (dom (steady full_page))) ''Value X'' = Some ''3.25x''"
    "map_of (extracted (dom (steady full_page))) ''Value Bets'' = Some ''120''"
    "map_of (extracted (dom (steady full_page))) ''Value Prize'' = Some ''400''"
    "map_of (extracted (dom (steady full_page))) ''Value Players'' = Some ''15''"
    by code_simp+
  have opened: "out_file ((session 10 0)\<lparr>out_file := Some (''out.csv'', [header])\<rparr>) =
                Some (''out.csv'', [header])"
    by simp
  have stamp: "get_timestamp (wall (steady full_page)) = ''2026-11-04 08:00:00''"
    by code_simp
  have mult: "replace_x ''3.25x'' = ''3.25''"
    by (simp add: replace_x_def)
  from written_row_fields [OF loc fields(1) _ fields(2,3,4) opened]
  show ?thesis unfolding stamp mult by auto
qed

text \<open>
  C3 (as stated) fails. The unit of this multiplier is a capital letter: the specification's
  reading removes it, the row that the cycle writes keeps it.
\<close>

theorem written_multiplier_keeps_other_units:
  "out_file (state_of (poll_once
       (steady [Some ''1.5X'', Some ''120'', Some ''400'', Some ''15''])
       ((session 10 0)\<lparr>out_file := Some (''out.csv'', [header])\<rparr>))) =
     Some (''out.csv'', [header, ''2026-11-04 08:00:00,1.5X,120,400,15'' @ [newline]]) \<and>
   spec_strip_unit ''1.5X'' = ''1.5''"
  by code_simp

lemma digit_char: "digit n \<in> set ''0123456789''"
proof -
  have "n mod 10 < length ''0123456789''" by simp
  then show ?thesis unfolding digit_def by (rule nth_mem)
qed

lemma digits_chars: "set (digits n) \<subseteq> set ''0123456789'' \<and> digits n \<noteq> []"
proof (induction n rule: digits.induct)
  case (1 n)
  show ?case
  proof (cases "n < 10")
    case True
    then have "digits n = [digit n]" by (simp add: digits.simps)
    with digit_char [of n] show ?thesis by simp
  next
    case False
    then have "digits n = digits (n div 10) @ [digit n]" by (subst digits.simps) simp
    with "1.IH" False digit_char [of n] show ?thesis by simp
  qed
qed

lemma zfill_hd: "hd (zfill w (digits n)) \<in> set ''0123456789''"
proof (cases "w - length (digits n)")
  case 0
  then have z: "zfill w (digits n) = digits n" by (simp add: zfill_def)
  have sub: "set (digits n) \<subseteq> set ''0123456789''"
    using digits_chars [of n] by (rule conjunct1)
  have "digits n \<noteq> []"
    using digits_chars [of n] by (rule conjunct2)
  then have "hd (digits n) \<in> set (digits n)" by (rule hd_in_set)
  with sub have "hd (digits n) \<in> set ''0123456789''" by (rule subsetD)
  then show ?thesis by (simp only: z)
next
  case (Suc k)
  then have "hd (zfill w (digits n)) = CHR ''0''" by (simp add: zfill_def)
  then show ?thesis by simp
qed

lemma zfill_nonempty: "zfill w (digits n) \<noteq> []"
  using digits_chars [of n] by (simp add: zfill_def)

lemma get_timestamp_hd:
  "get_timestamp t \<noteq> [] \<and> hd (get_timestamp t) \<in> set ''0123456789''"
proof -
  obtain y m d where c: "civil_from_days (t div 86400) = (y, m, d)"
    by (cases "civil_from_days (t div 86400)")
  have "get_timestamp t = zfill 4 (digits (nat y)) @
          (''-'' @ zfill 2 (digits (nat m)) @ ''-'' @ zfill 2 (digits (nat d)) @
           '' '' @ hh t @ '':'' @ mm t @ '':'' @ ss t)"
    by (simp add: get_timestamp_def strftime_colon_def date_str_def c)
  then show ?thesis
    using zfill_hd [of 4 "nat y"] zfill_nonempty [of 4 "nat y"] by (simp add: hd_append)
qed

lemma format_line_not_header:
  assumes "format_line (get_timestamp t) data = Inr line"
  shows "line \<noteq> header"
proof -
  from assms obtain rest where "line = get_timestamp t @ rest"
    by (auto simp: format_line_def split: sum.splits)
  then have "hd line = hd (get_timestamp t)"
    using get_timestamp_hd [of t] by (simp add: hd_append)
  then have "hd line \<in> set ''0123456789''"
    using get_timestamp_hd [of t] by simp
  moreover have "hd header = CHR ''T''" by (simp add: header_def)
  ultimately show ?thesis by auto
qed

lemma get_output_file_name_cong:
  "duration s' = duration s \<Longrightarrow> live_prediction s' = live_prediction s \<Longrightarrow>
   get_output_file_name now s' = get_output_file_name now s"
  by (simp add: get_output_file_name_def Let_def split: sum.splits)

lemma fetch_try_opened:
  assumes "driver s" and "load env = None" and "open_err env = None"
    and "get_output_file_name (name_clock env) s = Inr name"
  shows "fetch_try env url s =
           (case fetch_loop (cycles env) 0
                   ((log_msg INFO ''Writing scraped data to''
                       (sleep 5000 (browser_call (Get url) s)))
                      \<lparr>out_file := Some (name, [header])\<rparr>) of
              Raised e s' \<Rightarrow> Raised e s'
            | Ok u s' \<Rightarrow> Ok () (log_msg INFO ''Data fetching completed successfully.'' s'))"
proof -
  have "get_output_file_name (name_clock env) (sleep 5000 (browser_call (Get url) s)) = Inr name"
    using assms(4) get_output_file_name_cong [of "sleep 5000 (browser_call (Get url) s)" s]
    by (simp add: sleep_def browser_call_def)
  then show ?thesis
    using assms(1,2,3) by (simp add: fetch_try_def Let_def)
qed

lemma lines_of_line:
  "newline \<notin> set l \<Longrightarrow> lines_of (l @ newline # rest) = l # lines_of rest"
  by (induction l) auto

lemma one_line_split: "one_line w \<Longrightarrow> w = butlast w @ [newline] \<and> newline \<notin> set (butlast w)"
  unfolding one_line_def by (metis append_butlast_last_id)

lemma file_lines_one_line: "list_all one_line ws \<Longrightarrow> file_lines ws = map butlast ws"
proof (induction ws)
  case Nil
  then show ?case by (simp add: file_lines_def)
next
  case (Cons w ws)
  then have w: "w = butlast w @ [newline]" "newline \<notin> set (butlast w)"
    using one_line_split [of w] by simp_all
  have "concat (w # ws) = butlast w @ newline # concat ws"
    using w(1) by (metis append_Cons append_Nil append_assoc concat.simps(2))
  then have "file_lines (w # ws) = butlast w # lines_of (concat ws)"
    using w(2) by (simp add: file_lines_def lines_of_line del: concat.simps)
  with Cons show ?case by (simp add: file_lines_def)
qed

lemma newline_not_digit: "newline \<notin> set ''0123456789''"
  by (simp add: newline_def)

lemma zfill_no_newline: "newline \<notin> set (zfill w (digits n))"
proof -
  have "set (digits n) \<subseteq> set ''0123456789''"
    using digits_chars [of n] by (rule conjunct1)
  with newline_not_digit have "newline \<notin> set (digits n)" by blast
  moreover have "newline \<noteq> CHR ''0''" by (simp add: newline_def)
  ultimately show ?thesis by (auto simp: zfill_def)
qed

lemma get_timestamp_no_newline: "newline \<notin> set (get_timestamp t)"
proof -
  obtain y m d where "civil_from_days (t div 86400) = (y, m, d)"
    by (cases "civil_from_days (t div 86400)")
  moreover have "newline \<noteq> CHR ''-''" "newline \<noteq> CHR '' ''" "newline \<noteq> CHR '':''"
    by (simp_all add: newline_def)
  ultimately show ?thesis
    using zfill_no_newline
    by (simp add: get_timestamp_def strftime_colon_def date_str_def hh_def mm_def ss_def)
qed

lemma strip_subset: "set (strip s) \<subseteq> set s"
proof
  fix c assume "c \<in> set (strip s)"
  then have "c \<in> set (dropWhile is_space (rev (dropWhile is_space s)))"
    by (simp add: strip_def)
  then have "c \<in> set (rev (dropWhile is_space s))" by (rule set_dropWhileD)
  then have "c \<in> set (dropWhile is_space s)" by simp
  then show "c \<in> set s" by (rule set_dropWhileD)
qed

lemma dict_set_values:
  "(k', v') \<in> set (dict_set d k v) \<Longrightarrow> (k', v') \<in> set d \<or> v' = v"
  by (induction d) (auto split: if_splits)

lemma extract_loop_values:
  "\<forall>sel tx. pg sel = Some tx \<longrightarrow> newline \<notin> set tx \<Longrightarrow>
   \<forall>kv \<in> set data. newline \<notin> set (snd kv) \<Longrightarrow>
   \<forall>kv \<in> set (snd (extract_loop pg es data)). newline \<notin> set (snd kv)"
proof (induction pg es data rule: extract_loop.induct)
  case (1 pg data)
  then show ?case by simp
next
  case (2 pg key selector rest data)
  show ?case
  proof (cases "pg selector")
    case None
    with "2.prems"(2) show ?thesis by (simp add: find_element_def)
  next
    case (Some tx)
    with "2.prems"(1) have "newline \<notin> set tx" by blast
    then have clean: "newline \<notin> set (strip tx)"
      using strip_subset [of tx] by blast
    have upd: "\<forall>kv \<in> set (dict_set data key (strip tx)). newline \<notin> set (snd kv)"
    proof
      fix kv assume "kv \<in> set (dict_set data key (strip tx))"
      then have "(fst kv, snd kv) \<in> set (dict_set data key (strip tx))" by simp
      then have "(fst kv, snd kv) \<in> set data \<or> snd kv = strip tx"
        by (rule dict_set_values)
      with "2.prems"(2) clean show "newline \<notin> set (snd kv)" by auto
    qed
    have found: "find_element pg selector = Inr tx"
      using Some by (simp add: find_element_def)
    from "2.IH" [OF found "2.prems"(1) upd] found show ?thesis by simp
  qed
qed

lemma extracted_values:
  assumes "\<forall>sel tx. pg sel = Some tx \<longrightarrow> newline \<notin> set tx"
    and "map_of (extracted pg) k = Some v"
  shows "newline \<notin> set v"
proof -
  have "\<forall>kv \<in> set (extracted pg). newline \<notin> set (snd kv)"
    unfolding extracted_def using extract_loop_values [OF assms(1), of "[]" elements]
    by simp
  moreover have "(k, v) \<in> set (extracted pg)"
    using assms(2) by (rule map_of_SomeD)
  ultimately show ?thesis by auto
qed

lemma format_line_one_line:
  assumes "format_line ts data = Inr line" and "newline \<notin> set ts"
    and "\<forall>k v. map_of data k = Some v \<longrightarrow> newline \<notin> set v"
  shows "one_line line"
proof -
  from assms(1) obtain x bets prize players where
    f: "map_of data ''Value X'' = Some x" "map_of data ''Value Bets'' = Some bets"
       "map_of data ''Value Prize'' = Some prize" "map_of data ''Value Players'' = Some players"
    and line: "line = (ts @ '','' @ replace_x x @ '','' @ bets @ '','' @ prize @ '','' @ players)
                 @ [newline]"
    by (auto simp: format_line_def dict_item_def split: option.splits)
  have "newline \<notin> set x" "newline \<notin> set bets" "newline \<notin> set prize" "newline \<notin> set players"
    using f assms(3) by blast+
  moreover have "newline \<noteq> CHR '',''" by (simp add: newline_def)
  ultimately have "newline \<notin> set (ts @ '','' @ replace_x x @ '','' @ bets @ '','' @ prize @
                                    '','' @ players)"
    using assms(2) by (simp add: replace_x_def)
  then show ?thesis unfolding line one_line_def by (simp only: butlast_snoc last_snoc) simp
qed

lemma rows_all_same: "out_file t = out_file s \<Longrightarrow> rows_all P name s \<Longrightarrow> rows_all P name t"
  by (simp add: rows_all_def)

lemma loop_body_rows:
  assumes "rows_all P name s"
    and "\<forall>line. format_line (get_timestamp (wall c)) (extracted (dom c)) = Inr line \<longrightarrow> P line"
  shows "rows_all P name (step_state (loop_body c s))"
proof (cases "poll_once c s")
  case (Ok u s')
  define s1 where "s1 = sleep (int (browser_ms c)) (browser_call (WaitFor ''svg'' 30) s)"
  obtain s2 where ex: "extract_data (dom c) s1 = Ok (extracted (dom c)) s2"
    and s2: "out_file s2 = out_file s1"
    using extract_data_extracted [of "dom c" s1] by auto
  have s1: "out_file s1 = out_file s"
    by (simp add: s1_def sleep_def browser_call_def)
  from Ok obtain data s2' where
    ex': "extract_data (dom c) s1 = Ok data s2'"
    and s': "s' = sleep 3000 (log_msg DEBUG
                ''No valid data found or Value X empty, waiting before retrying.'' s2')
             \<or> (\<exists>line. format_line (get_timestamp (wall c)) data = Inr line \<and>
                    s' = sleep 800 (log_msg INFO ''Data extracted and written''
                           (file_write line s2')))"
    unfolding s1_def by (rule poll_once_Ok) blast
  from ex ex' have same: "data = extracted (dom c)" "s2' = s2" by simp_all
  from s' have "rows_all P name s'"
  proof
    assume "s' = sleep 3000 (log_msg DEBUG
                ''No valid data found or Value X empty, waiting before retrying.'' s2')"
    then have "out_file s' = out_file s"
      using s1 s2 same by (simp add: sleep_def log_msg_def)
    then show ?thesis using assms(1) by (rule rows_all_same)
  next
    assume "\<exists>line. format_line (get_timestamp (wall c)) data = Inr line \<and>
              s' = sleep 800 (log_msg INFO ''Data extracted and written'' (file_write line s2'))"
    then obtain line where fl: "format_line (get_timestamp (wall c)) data = Inr line"
      and "s' = sleep 800 (log_msg INFO ''Data extracted and written'' (file_write line s2'))"
      by blast
    then have "out_file s' =
                 map_option (\<lambda>(name, written). (name, written @ [line])) (out_file s)"
      using s1 s2 same by (simp add: sleep_def log_msg_def file_write_def)
    moreover have "P line"
      using fl same assms(2) by blast
    ultimately show ?thesis
      using assms(1) by (auto simp: rows_all_def)
  qed
  then show ?thesis using Ok by (simp add: loop_body_def step_state_def)
next
  case (Raised e s')
  from poll_once_raise [OF Raised] have "out_file s' = out_file s" by simp
  then have "rows_all P name s'" using assms(1) by (rule rows_all_same)
  moreover have "rows_all P name (log_msg WARNING m s')" if "rows_all P name s'" for m
    using that by (simp add: rows_all_def log_msg_def)
  ultimately show ?thesis
    using Raised by (simp add: loop_body_def step_state_def)
qed

lemma fetch_loop_rows:
  "rows_all P name s \<Longrightarrow>
   \<forall>j line. format_line (get_timestamp (wall (env j))) (extracted (dom (env j))) = Inr line
      \<longrightarrow> P line \<Longrightarrow>
   rows_all P name (state_of (fetch_loop env i s))"
proof (induction env i s rule: fetch_loop.induct)
  case (1 env i s)
  show ?case
  proof (cases "running s")
    case False
    then have "fetch_loop env i s = Ok () s" by (subst fetch_loop.simps) simp
    with "1.prems"(1) show ?thesis by (simp add: state_of_def)
  next
    case True
    have "\<forall>line. format_line (get_timestamp (wall (env i))) (extracted (dom (env i))) = Inr line
            \<longrightarrow> P line"
      using "1.prems"(2) by blast
    with "1.prems"(1) have inv: "rows_all P name (step_state (loop_body (env i) s))"
      by (rule loop_body_rows)
    show ?thesis
    proof (cases "loop_body (env i) s")
      case (Continue s')
      then have "fetch_loop env i s = fetch_loop env (Suc i) s'"
        using True by (subst fetch_loop.simps) simp
      moreover have "rows_all P name s'"
        using inv Continue by (simp add: step_state_def)
      ultimately show ?thesis using "1.IH" [OF True Continue _ "1.prems"(2)] by simp
    next
      case (Break s')
      then have "fetch_loop env i s = Ok () s'"
        using True by (subst fetch_loop.simps) simp
      with inv Break show ?thesis by (simp add: step_state_def state_of_def)
    next
      case (Escape e s')
      then have "fetch_loop env i s = Raised e s'"
        using True by (subst fetch_loop.simps) simp
      with inv Escape show ?thesis by (simp add: step_state_def state_of_def)
    qed
  qed
qed

lemma header_one_line:
  "one_line header"
  "butlast header = ''Timestamp,Value X,Value Bets,Value Prize,Value Players''"
  by (simp_all add: header_def one_line_def newline_def)

text \<open>
  C6 (as amended). Whenever a call of \<open>fetch_data\<close> gets as far as its output file (the
  browser is there, the page loads, the name is computed and the file opens), the header
  is the first string it writes and no later write is the header, whatever the polling
  cycles then do. If moreover no text on the pages holds a line feed, every write is one
  line: the header is the first line of the file and no other line of the file is equal
  to it.
\<close>

theorem header_written_once:
  assumes "driver s" and "load env = None" and "open_err env = None"
    and "get_output_file_name (name_clock env) s = Inr name"
  shows "\<exists>rows. out_file (fetch_data env url s) = Some (name, header # rows) \<and>
           header \<notin> set rows \<and>
           header = ''Timestamp,Value X,Value Bets,Value Prize,Value Players'' @ [newline] \<and>
           (single_line_pages (cycles env) \<longrightarrow>
              file_lines (header # rows) =
                ''Timestamp,Value X,Value Bets,Value Prize,Value Players'' # map butlast rows \<and>
              ''Timestamp,Value X,Value Bets,Value Prize,Value Players''
                \<notin> set (map butlast rows))"
proof -
  define P where
    "P = (\<lambda>r. r \<noteq> header \<and> (single_line_pages (cycles env) \<longrightarrow> one_line r))"
  define s0 where "s0 = log_msg INFO ''Fetching data from URL'' s"
  define s4 where "s4 = (log_msg INFO ''Writing scraped data to''
                           (sleep 5000 (browser_call (Get url) s0)))
                          \<lparr>out_file := Some (name, [header])\<rparr>"
  have d: "driver s0" using assms(1) by (simp add: s0_def log_msg_def)
  have n: "get_output_file_name (name_clock env) s0 = Inr name"
    using assms(4) get_output_file_name_cong [of s0 s] by (simp add: s0_def log_msg_def)
  have body: "fetch_try env url s0 =
               (case fetch_loop (cycles env) 0 s4 of
                  Raised e s' \<Rightarrow> Raised e s'
                | Ok u s' \<Rightarrow> Ok () (log_msg INFO ''Data fetching completed successfully.'' s'))"
    unfolding s4_def using d assms(2,3) n by (rule fetch_try_opened)
  have rows: "P line"
    if "format_line (get_timestamp (wall (cycles env j))) (extracted (dom (cycles env j)))
          = Inr line" for j line
  proof -
    have "line \<noteq> header" using that by (rule format_line_not_header)
    moreover have "one_line line" if "single_line_pages (cycles env)"
    proof -
      from that have "\<forall>sel tx. dom (cycles env j) sel = Some tx \<longrightarrow> newline \<notin> set tx"
        by (simp add: single_line_pages_def)
      then have "\<forall>k v. map_of (extracted (dom (cycles env j))) k = Some v \<longrightarrow> newline \<notin> set v"
        using extracted_values by blast
      with \<open>format_line _ _ = Inr line\<close> get_timestamp_no_newline show ?thesis
        by (rule format_line_one_line)
    qed
    ultimately show ?thesis by (simp add: P_def)
  qed
  have "rows_all P name s4" by (simp add: rows_all_def s4_def)
  then have "rows_all P name (state_of (fetch_loop (cycles env) 0 s4))"
    using rows by (intro fetch_loop_rows) blast+
  moreover have "out_file (fetch_data env url s) =
                 out_file (state_of (fetch_loop (cycles env) 0 s4))"
    unfolding fetch_data_def s0_def [symmetric] body
    by (cases "fetch_loop (cycles env) 0 s4") (simp_all add: state_of_def log_msg_def)
  ultimately obtain rows where out: "out_file (fetch_data env url s) = Some (name, header # rows)"
    and all: "list_all P rows"
    by (auto simp: rows_all_def)
  have once: "header \<notin> set rows"
    using all by (auto simp: P_def list_all_iff)
  have lines: "file_lines (header # rows) =
                 ''Timestamp,Value X,Value Bets,Value Prize,Value Players'' # map butlast rows \<and>
               ''Timestamp,Value X,Value Bets,Value Prize,Value Players''
                 \<notin> set (map butlast rows)"
    if single: "single_line_pages (cycles env)"
  proof -
    have ol: "list_all one_line rows"
      using all single by (simp add: P_def list_all_iff)
    then have "list_all one_line (header # rows)"
      using header_one_line(1) by simp
    then have "file_lines (header # rows) = map butlast (header # rows)"
      by (rule file_lines_one_line)
    then have first: "file_lines (header # rows) =
        ''Timestamp,Value X,Value Bets,Value Prize,Value Players'' # map butlast rows"
      using header_one_line(2) by simp
    have "butlast header \<notin> set (map butlast rows)"
    proof
      assume "butlast header \<in> set (map butlast rows)"
      then obtain r where r: "r \<in> set rows" "butlast r = butlast header" by auto
      with ol have "one_line r" by (simp add: list_all_iff)
      then have "r = butlast r @ [newline]" using one_line_split by blast
      moreover have "header = butlast header @ [newline]"
        using header_one_line(1) one_line_split by blast
      ultimately have "r = header" using r(2) by simp
      with r(1) once show False by simp
    qed
    with first header_one_line(2) show ?thesis by simp
  qed
  from out once lines show ?thesis by (auto simp: header_def)
qed

lemma page_of_texts: "page_of texts sel = Some tx \<Longrightarrow> Some tx \<in> set texts"
proof -
  assume "page_of texts sel = Some tx"
  then have "map_of (zip (map snd elements) texts) sel = Some (Some tx)"
    by (simp add: page_of_def split: option.splits)
  then have "(sel, Some tx) \<in> set (zip (map snd elements) texts)"
    by (rule map_of_SomeD)
  then show ?thesis by (rule set_zip_rightD)
qed

theorem header_written_once_witness:
  "\<exists>rows. out_file (fetch_data (fetch_of (\<lambda>i. steady full_page)) ''https://1xbet.com/crash''
                      (session 7 0)) =
            Some (''data_brute_2026-11-04 08_00_00_to_2026-11-04_08_00_07.csv'', header # rows) \<and>
          header \<notin> set rows \<and>
          file_lines (header # rows) =
            ''Timestamp,Value X,Value Bets,Value Prize,Value Players'' # map butlast rows \<and>
          ''Timestamp,Value X,Value Bets,Value Prize,Value Players'' \<notin> set (map butlast rows)"
proof -
  have "driver (session 7 0)" by (simp add: session_def)
  moreover have "load (fetch_of (\<lambda>i. steady full_page)) = None"
    "open_err (fetch_of (\<lambda>i. steady full_page)) = None"
    by (simp_all add: fetch_of_def)
  moreover have "get_output_file_name (name_clock (fetch_of (\<lambda>i. steady full_page)))
                   (session 7 0) =
                 Inr ''data_brute_2026-11-04 08_00_00_to_2026-11-04_08_00_07.csv''"
    by code_simp
  moreover have "single_line_pages (cycles (fetch_of (\<lambda>i. steady full_page)))"
  proof -
    have "newline \<notin> set tx" if "Some tx \<in> set full_page" for tx
      using that by (auto simp: full_page_def newline_def)
    then show ?thesis
      by (auto simp: single_line_pages_def fetch_of_def steady_def dest: page_of_texts)
  qed
  ultimately show ?thesis
    using header_written_once [of "session 7 0" "fetch_of (\<lambda>i. steady full_page)"] by blast
qed

text \<open>
  C6 (as stated) fails in two ways. When the page of the game does not load, \<open>fetch_data\<close>
  ends before it opens the file and no header is written. When a field of the page shows
  a second line that reads like the header, the file holds the header line three times
  after two cycles: once from the header and once from each row.
\<close>

theorem header_line_not_always_once:
  "out_file (fetch_data ((fetch_of (\<lambda>i. steady full_page))\<lparr>load := Some WebDriverException\<rparr>)
               ''https://1xbet.com/crash'' (session 7 0)) = None \<and>
   out_file (fetch_data (fetch_of (\<lambda>i. steady header_in_players)) ''https://1xbet.com/crash''
               (session 6 0)) =
     Some (''data_brute_2026-11-04 08_00_00_to_2026-11-04_08_00_06.csv'',
           [header,
            ''2026-11-04 08:00:00,3.25,120,400,15'' @ [newline] @
              ''Timestamp,Value X,Value Bets,Value Prize,Value Players'' @ [newline],
            ''2026-11-04 08:00:00,3.25,120,400,15'' @ [newline] @
              ''Timestamp,Value X,Value Bets,Value Prize,Value Players'' @ [newline]]) \<and>
   file_lines
     [header,
      ''2026-11-04 08:00:00,3.25,120,400,15'' @ [newline] @
        ''Timestamp,Value X,Value Bets,Value Prize,Value Players'' @ [newline],
      ''2026-11-04 08:00:00,3.25,120,400,15'' @ [newline] @
        ''Timestamp,Value X,Value Bets,Value Prize,Value Players'' @ [newline]] =
     [''Timestamp,Value X,Value Bets,Value Prize,Value Players'',
      ''2026-11-04 08:00:00,3.25,120,400,15'',
      ''Timestamp,Value X,Value Bets,Value Prize,Value Players'',
      ''2026-11-04 08:00:00,3.25,120,400,15'',
      ''Timestamp,Value X,Value Bets,Value Prize,Value Players'']"
  by code_simp

section \<open>The time the loop takes\<close>

lemma loop_body_clock:
  "clock (step_state (loop_body c s)) \<le> clock s + int (browser_ms c) + 3000 \<and>
   start_time (step_state (loop_body c s)) = start_time s \<and>
   duration (step_state (loop_body c s)) = duration s"
proof (cases "poll_once c s")
  case (Ok u s')
  then obtain data s2 where
    ex: "extract_data (dom c) (sleep (int (browser_ms c)) (browser_call (WaitFor ''svg'' 30) s))
           = Ok data s2"
    and s': "s' = sleep 3000 (log_msg DEBUG
                ''No valid data found or Value X empty, waiting before retrying.'' s2)
             \<or> (\<exists>line. s' = sleep 800 (log_msg INFO ''Data extracted and written''
                    (file_write line s2)))"
    by (rule poll_once_Ok) blast
  have s2: "clock s2 = clock s + int (browser_ms c)" "start_time s2 = start_time s"
    "duration s2 = duration s"
    using extract_data_frame [OF ex] by (simp_all add: sleep_def browser_call_def)
  from s' s2 have "clock s' \<le> clock s + int (browser_ms c) + 3000 \<and>
      start_time s' = start_time s \<and> duration s' = duration s"
    by (auto simp: sleep_def log_msg_def file_write_def)
  then show ?thesis using Ok by (simp add: loop_body_def step_state_def)
next
  case (Raised e s')
  from poll_once_raise [OF Raised]
  have "clock s' = clock s + int (browser_ms c)" "start_time s' = start_time s"
    "duration s' = duration s"
    by simp_all
  then show ?thesis using Raised by (simp add: loop_body_def step_state_def log_msg_def)
qed

lemma fetch_loop_deadline:
  "running s \<Longrightarrow> \<forall>j. int (browser_ms (env j)) \<le> w \<Longrightarrow>
   clock (state_of (fetch_loop env i s)) < start_time s + duration s * 1000 + w + 3000"
proof (induction env i s rule: fetch_loop.induct)
  case (1 env i s)
  from "1.prems"(2) have w: "int (browser_ms (env i)) \<le> w" by blast
  have run: "running s" by (rule "1.prems"(1))
  let ?r = "loop_body (env i) s"
  have step: "clock (step_state ?r) < start_time s + duration s * 1000 + w + 3000"
    "start_time (step_state ?r) = start_time s" "duration (step_state ?r) = duration s"
    using loop_body_clock [of "env i" s] w run by (simp_all add: running_def)
  show ?case
  proof (cases ?r)
    case (Continue s')
    have unfold: "fetch_loop env i s = fetch_loop env (Suc i) s'"
      using run Continue by (subst fetch_loop.simps) simp
    have s': "clock s' < start_time s + duration s * 1000 + w + 3000"
      "start_time s' = start_time s" "duration s' = duration s"
      using step Continue by (simp_all add: step_state_def)
    show ?thesis
    proof (cases "running s'")
      case True
      from "1.IH" [OF run Continue True "1.prems"(2)] s' unfold show ?thesis by simp
    next
      case False
      then have "fetch_loop env (Suc i) s' = Ok () s'" by (subst fetch_loop.simps) simp
      with unfold s' show ?thesis by (simp add: state_of_def)
    qed
  next
    case (Break s')
    then have "fetch_loop env i s = Ok () s'"
      using run by (subst fetch_loop.simps) simp
    with step Break show ?thesis by (simp add: step_state_def state_of_def)
  next
    case (Escape e s')
    then have "fetch_loop env i s = Raised e s'"
      using run by (subst fetch_loop.simps) simp
    with step Escape show ?thesis by (simp add: step_state_def state_of_def)
  qed
qed

text \<open>
  C2 (as amended). Let every cycle spend at most \<open>w\<close> milliseconds in the browser, so
  that a polling cycle lasts at most \<open>w + 3000\<close> milliseconds. A loop that is entered
  while the session still has time left ends less than one polling cycle after the end of
  the session, that is before \<open>start_time + duration + w + 3000\<close>, whatever the cycles
  extract. A loop that is entered after the end of the session runs no cycle and ends at
  once, at the time it was entered.
\<close>

theorem polling_loop_deadline:
  assumes "\<forall>j. int (browser_ms (env j)) \<le> w"
  shows "(running s \<longrightarrow>
            clock (state_of (fetch_loop env i s)) < start_time s + duration s * 1000 + w + 3000) \<and>
         (\<not> running s \<longrightarrow> fetch_loop env i s = Ok () s)"
proof (intro conjI impI)
  assume "running s"
  then show "clock (state_of (fetch_loop env i s)) < start_time s + duration s * 1000 + w + 3000"
    using assms by (rule fetch_loop_deadline)
next
  assume "\<not> running s"
  then show "fetch_loop env i s = Ok () s" by (subst fetch_loop.simps) simp
qed

theorem polling_loop_deadline_witness:
  "clock (state_of (fetch_loop (\<lambda>i. steady empty_multiplier) 0 (session 10 0))) < 13000"
proof -
  have "\<forall>j. int (browser_ms ((\<lambda>i. steady empty_multiplier) j)) \<le> 0"
    by (simp add: steady_def)
  moreover have "running (session 10 0)"
    by (simp add: running_def session_def)
  ultimately show ?thesis
    using polling_loop_deadline [of "\<lambda>i. steady empty_multiplier" 0 "session 10 0" 0]
    by (simp add: session_def)
qed

text \<open>
  C2 (as stated) fails for a loop that is entered late. In both sessions the browser
  answers at once and every cycle would find an empty multiplier, so that a polling cycle
  lasts 3 seconds. With a duration of 1 second, \<open>fetch_data\<close> called at the very start of
  the session returns after 5 seconds, more than a duration and a cycle after the start.
  With a duration of 10 seconds and a call 60 seconds after the start it returns after 65
  seconds, more than a duration, a wait of 30 seconds and a cycle after the start.
\<close>

theorem late_loop_misses_deadline:
  "\<not> clock (fetch_data (fetch_of (\<lambda>i. steady empty_multiplier)) ''https://1xbet.com/crash''
             (session 1 0))
       \<le> start_time (session 1 0) + duration (session 1 0) * 1000 + 3000 \<and>
   \<not> clock (fetch_data (fetch_of (\<lambda>i. steady empty_multiplier)) ''https://1xbet.com/crash''
             (session 10 60000))
       \<le> start_time (session 10 60000) + duration (session 10 60000) * 1000 + 30000 + 3000"
  by code_simp

section \<open>URL discovery and the release of the browser\<close>

lemma browser_fields:
  "driver (log_msg l m s) = driver s" "calls (log_msg l m s) = calls s"
  "driver (sleep n s) = driver s" "calls (sleep n s) = calls s"
  "driver (browser_call c s) = driver s" "calls (browser_call c s) = calls s @ [c]"
  "driver (file_write line s) = driver s" "calls (file_write line s) = calls s"
  by (simp_all add: log_msg_def sleep_def browser_call_def file_write_def)

lemma keeps_browser_refl: "keeps_browser s s"
  by (simp add: keeps_browser_def)

lemma keeps_browser_trans:
  "keeps_browser s t \<Longrightarrow> keeps_browser t u \<Longrightarrow> keeps_browser s u"
  by (auto simp: keeps_browser_def)

lemma keeps_browser_same:
  "driver u = driver t \<Longrightarrow> calls u = calls t \<Longrightarrow> keeps_browser s t \<Longrightarrow> keeps_browser s u"
  by (simp add: keeps_browser_def)

lemma keeps_log: "keeps_browser s t \<Longrightarrow> keeps_browser s (log_msg l m t)"
  by (rule keeps_browser_same [of _ t]) (simp_all add: browser_fields)

lemma keeps_sleep: "keeps_browser s t \<Longrightarrow> keeps_browser s (sleep n t)"
  by (rule keeps_browser_same [of _ t]) (simp_all add: browser_fields)

lemma keeps_write: "keeps_browser s t \<Longrightarrow> keeps_browser s (file_write line t)"
  by (rule keeps_browser_same [of _ t]) (simp_all add: browser_fields)

lemma keeps_out_file: "keeps_browser s t \<Longrightarrow> keeps_browser s (t\<lparr>out_file := f\<rparr>)"
  by (rule keeps_browser_same [of _ t]) simp_all

lemma keeps_url: "keeps_browser s t \<Longrightarrow> keeps_browser s (t\<lparr>url_crash_plane := u\<rparr>)"
  by (rule keeps_browser_same [of _ t]) simp_all

lemma keeps_get: "keeps_browser s t \<Longrightarrow> keeps_browser s (browser_call (Get u) t)"
  by (auto simp: keeps_browser_def browser_fields)

lemma keeps_wait: "keeps_browser s t \<Longrightarrow> keeps_browser s (browser_call (WaitFor x n) t)"
  by (auto simp: keeps_browser_def browser_fields)

lemmas keeps_steps =
  keeps_log keeps_sleep keeps_write keeps_out_file keeps_url keeps_get keeps_wait

lemma state_of_simps: "state_of (Ok u s) = s" "state_of (Raised e s) = s"
  by (simp_all add: state_of_def)

text \<open>
  C4. When the landing page loads and the frame of the game never appears, \<open>search_for_url\<close>
  makes two attempts and no more: it loads the page and waits up to 30 seconds, loads the
  page again and waits up to 10 seconds, and then raises \<open>NoSuchElementException\<close>.
\<close>

theorem url_discovery_two_attempts:
  assumes "driver s" and "\<forall>k. nav (env k) = None \<and> frame (env k) = None"
  shows "\<exists>s'. search_for_url env s = Raised NoSuchElementException s' \<and>
           calls s' = calls s @ [Get base_url, WaitFor iframe_selector 30,
                                 Get base_url, WaitFor iframe_selector 10] \<and>
           clock s' = clock s + 30000 + 2000 + 5000 + 10000"
proof -
  have a0: "nav (env 0) = None" "frame (env 0) = None"
    and a1: "nav (env 1) = None" "frame (env 1) = None"
    using assms(2) by simp_all
  define s0 where "s0 = log_msg INFO ''Searching for the crash game URL.'' s"
  define s1 where "s1 = sleep 30000 (browser_call (WaitFor iframe_selector 30)
                          (browser_call (Get base_url) s0))"
  have first: "first_try (env 0) s0 = Raised TimeoutException s1"
    using a0 by (simp add: first_try_def locate_frame_def Let_def s1_def)
  define s2 where "s2 = sleep 5000 (browser_call (Get base_url) (sleep 2000
                          (log_msg WARNING ''Encountered an issue loading the page, retrying'' s1)))"
  define s3 where "s3 = log_msg ERROR ''Failed to extract crash game URL after retry.''
                          (sleep 10000 (browser_call (WaitFor iframe_selector 10) s2))"
  have second: "retry (env 1) s1 = Raised NoSuchElementException s3"
    using a1 by (simp add: retry_def locate_frame_def Let_def caught_def s2_def s3_def)
  have d0: "driver s0"
    using assms(1) by (simp add: s0_def browser_fields)
  have "search_for_url env s = Raised NoSuchElementException s3"
    using d0 first second
    by (simp add: search_for_url_def Let_def s0_def [symmetric] caught_def)
  moreover have "calls s3 = calls s @ [Get base_url, WaitFor iframe_selector 30,
                                       Get base_url, WaitFor iframe_selector 10]"
    by (simp add: s3_def s2_def s1_def s0_def browser_fields)
  moreover have "clock s3 = clock s + 30000 + 2000 + 5000 + 10000"
    by (simp add: s3_def s2_def s1_def s0_def log_msg_def sleep_def browser_call_def)
  ultimately show ?thesis by blast
qed

theorem url_discovery_two_attempts_witness:
  "\<exists>s'. search_for_url (\<lambda>k. no_frame) (session 10 0) = Raised NoSuchElementException s' \<and>
     calls s' = [Get base_url, WaitFor iframe_selector 30, Get base_url, WaitFor iframe_selector 10]"
proof -
  have "driver (session 10 0)" by (simp add: session_def)
  moreover have "\<forall>k. nav ((\<lambda>k. no_frame) k) = None \<and> frame ((\<lambda>k. no_frame) k) = None"
    by (simp add: no_frame_def)
  ultimately show ?thesis
    using url_discovery_two_attempts [of "session 10 0" "\<lambda>k. no_frame"]
    by (auto simp: session_def)
qed

lemma locate_frame_keeps:
  "keeps_browser s t \<Longrightarrow>
   keeps_browser s (state_of (locate_frame timeout a found_msg missing_msg t))"
  by (auto simp: locate_frame_def Let_def state_of_simps intro!: keeps_steps
           split: option.splits)

lemma first_try_keeps: "keeps_browser s t \<Longrightarrow> keeps_browser s (state_of (first_try a t))"
  by (auto simp: first_try_def Let_def state_of_simps intro!: keeps_steps locate_frame_keeps
           split: option.splits)

lemma retry_keeps:
  assumes "keeps_browser s t"
  shows "keeps_browser s (state_of (retry a t))"
proof (cases "nav a")
  case None
  define s2 where "s2 = sleep 5000 (browser_call (Get base_url) (sleep 2000
                          (log_msg WARNING ''Encountered an issue loading the page, retrying'' t)))"
  define r where "r = locate_frame 10 a ''Found crash game URL on retry''
                        ''Failed to extract crash game URL after retry (no src found).'' s2"
  have "keeps_browser s s2"
    unfolding s2_def using assms by (intro keeps_steps)
  then have kr: "keeps_browser s (state_of r)"
    unfolding r_def by (rule locate_frame_keeps)
  have eq: "retry a t =
              (case r of
                 Ok url s3 \<Rightarrow> Ok url s3
               | Raised e s3 \<Rightarrow>
                   if caught e then
                     Raised NoSuchElementException
                       (log_msg ERROR ''Failed to extract crash game URL after retry.'' s3)
                   else Raised e s3)"
    using None by (simp add: retry_def Let_def s2_def r_def)
  show ?thesis
    unfolding eq using kr by (cases r) (auto simp: state_of_simps intro!: keeps_steps)
next
  case (Some e)
  then show ?thesis
    using assms by (auto simp: retry_def Let_def state_of_simps intro!: keeps_steps)
qed

lemma search_for_url_keeps: "keeps_browser s (state_of (search_for_url env s))"
proof -
  define s0 where "s0 = log_msg INFO ''Searching for the crash game URL.'' s"
  define r where "r = first_try (env 0) s0"
  have k0: "keeps_browser s s0"
    unfolding s0_def by (intro keeps_steps keeps_browser_refl)
  then have k1: "keeps_browser s (state_of r)"
    unfolding r_def by (rule first_try_keeps)
  have eq: "search_for_url env s =
              (if \<not> driver s0 then Raised AttributeError s0
               else
                 (case r of
                    Ok url s1 \<Rightarrow> Ok url s1
                  | Raised e s1 \<Rightarrow> if caught e then retry (env 1) s1 else Raised e s1))"
    by (simp add: search_for_url_def Let_def s0_def r_def)
  show ?thesis
    unfolding eq using k0 k1
    by (cases r) (auto simp: state_of_simps intro!: retry_keeps)
qed

lemma poll_once_keeps:
  assumes "keeps_browser s t"
  shows "keeps_browser s (state_of (poll_once c t))"
proof -
  define s1 where "s1 = sleep (int (browser_ms c)) (browser_call (WaitFor ''svg'' 30) t)"
  obtain s2 where ex: "extract_data (dom c) s1 = Ok (extracted (dom c)) s2"
    and fr: "calls s2 = calls s1" "driver s2 = driver s1"
    using extract_data_extracted [of "dom c" s1] by auto
  have k1: "keeps_browser s s1"
    unfolding s1_def using assms by (intro keeps_steps)
  then have k2: "keeps_browser s s2"
    using fr by (intro keeps_browser_same [of s2 s1]) simp_all
  have eq: "poll_once c t =
     (case svg_wait c of
        TimedOut \<Rightarrow> Raised TimeoutException s1
      | Crashed \<Rightarrow> Raised WebDriverException s1
      | Located \<Rightarrow>
          if extracted (dom c) = [] \<or> dict_get (extracted (dom c)) ''Value X'' [] = [] then
            Ok () (sleep 3000 (log_msg DEBUG
              ''No valid data found or Value X empty, waiting before retrying.'' s2))
          else
            (case format_line (get_timestamp (wall c)) (extracted (dom c)) of
               Inl e \<Rightarrow> Raised e s2
             | Inr line \<Rightarrow>
                 Ok () (sleep 800 (log_msg INFO ''Data extracted and written''
                   (file_write line s2)))))"
    by (cases "svg_wait c") (simp_all add: poll_once_def Let_def s1_def [symmetric] ex)
  show ?thesis
    unfolding eq using k1 k2
    by (auto simp: state_of_simps intro!: keeps_steps split: wait_result.splits sum.splits)
qed

lemma loop_body_keeps:
  assumes "keeps_browser s t"
  shows "keeps_browser s (step_state (loop_body c t))"
proof (cases "poll_once c t")
  case (Ok u s')
  with poll_once_keeps [OF assms, of c] show ?thesis
    by (simp add: loop_body_def step_state_def state_of_simps)
next
  case (Raised e s')
  with poll_once_keeps [OF assms, of c] have "keeps_browser s s'"
    by (simp add: state_of_simps)
  then show ?thesis
    using Raised by (auto simp: loop_body_def step_state_def intro!: keeps_steps)
qed

lemma fetch_loop_keeps:
  "keeps_browser s t \<Longrightarrow> keeps_browser s (state_of (fetch_loop env i t))"
proof (induction env i t rule: fetch_loop.induct)
  case (1 env i t)
  show ?case
  proof (cases "running t")
    case False
    then have "fetch_loop env i t = Ok () t" by (subst fetch_loop.simps) simp
    with "1.prems" show ?thesis by (simp add: state_of_simps)
  next
    case True
    have k: "keeps_browser s (step_state (loop_body (env i) t))"
      using "1.prems" by (rule loop_body_keeps)
    show ?thesis
    proof (cases "loop_body (env i) t")
      case (Continue s')
      then have "fetch_loop env i t = fetch_loop env (Suc i) s'"
        using True by (subst fetch_loop.simps) simp
      moreover have "keeps_browser s s'" using k Continue by (simp add: step_state_def)
      ultimately show ?thesis
        using "1.IH" [OF True Continue] by simp
    next
      case (Break s')
      then have "fetch_loop env i t = Ok () s'"
        using True by (subst fetch_loop.simps) simp
      with k Break show ?thesis by (simp add: step_state_def state_of_simps)
    next
      case (Escape e s')
      then have "fetch_loop env i t = Raised e s'"
        using True by (subst fetch_loop.simps) simp
      with k Escape show ?thesis by (simp add: step_state_def state_of_simps)
    qed
  qed
qed

lemma fetch_try_keeps:
  assumes "keeps_browser s t"
  shows "keeps_browser s (state_of (fetch_try env url t))"
proof -
  define s2 where "s2 = sleep 5000 (browser_call (Get url) t)"
  define s3 where "s3 = log_msg INFO ''Writing scraped data to'' s2"
  have k1: "keeps_browser s (browser_call (Get url) t)"
    using assms by (intro keeps_steps)
  have k2: "keeps_browser s s2"
    unfolding s2_def using assms by (intro keeps_steps)
  have k3: "keeps_browser s s3"
    unfolding s3_def using k2 by (intro keeps_steps)
  have kl: "keeps_browser s (state_of (fetch_loop (cycles env) 0 (s3\<lparr>out_file := f\<rparr>)))" for f
    using k3 by (intro fetch_loop_keeps keeps_steps)
  have loop: "keeps_browser s (state_of
      (case fetch_loop (cycles env) 0 (s3\<lparr>out_file := f\<rparr>) of
         Raised e s' \<Rightarrow> Raised e s'
       | Ok u s' \<Rightarrow> Ok () (log_msg INFO ''Data fetching completed successfully.'' s')))" for f
    using kl [of f]
    by (cases "fetch_loop (cycles env) 0 (s3\<lparr>out_file := f\<rparr>)")
       (auto simp: state_of_simps intro!: keeps_steps)
  have eq: "fetch_try env url t =
     (if \<not> driver t then Raised AttributeError t
      else
        (case load env of
           Some e \<Rightarrow> Raised e (browser_call (Get url) t)
         | None \<Rightarrow>
             (case get_output_file_name (name_clock env) s2 of
                Inl e \<Rightarrow> Raised e s2
              | Inr output_file \<Rightarrow>
                  (case open_err env of
                     Some e \<Rightarrow> Raised e s3
                   | None \<Rightarrow>
                       (case fetch_loop (cycles env) 0
                               (s3\<lparr>out_file := Some (output_file, [header])\<rparr>) of
                          Raised e s' \<Rightarrow> Raised e s'
                        | Ok u s' \<Rightarrow>
                            Ok () (log_msg INFO
                              ''Data fetching completed successfully.'' s'))))))"
    unfolding fetch_try_def Let_def s2_def s3_def by (rule refl)
  show ?thesis
    unfolding eq using assms k1 k2 k3 loop
    by (simp add: state_of_simps split: option.splits sum.splits)
qed

lemma fetch_data_keeps:
  assumes "keeps_browser s t"
  shows "keeps_browser s (fetch_data env url t)"
proof -
  define r where "r = fetch_try env url (log_msg INFO ''Fetching data from URL'' t)"
  have "keeps_browser s (state_of r)"
    unfolding r_def using assms by (intro fetch_try_keeps keeps_steps)
  moreover have "fetch_data env url t =
      (case r of Ok u s' \<Rightarrow> s' | Raised e s' \<Rightarrow> log_msg ERROR ''Error while fetching data'' s')"
    by (simp add: fetch_data_def r_def)
  ultimately show ?thesis
    by (cases r) (auto simp: state_of_simps intro!: keeps_steps)
qed

text \<open>
  C8 (as amended). Whatever URL discovery and fetching meet, \<open>start_scraping\<close> ends in
  \<open>close_driver\<close>, called on the state that the \<open>try\<close> and its handler leave, in which
  the browser is held if it was held at the start. If the scraper holds a browser, \<open>quit\<close>
  is the last call the browser receives and the only \<open>quit\<close> of the run. When \<open>quit\<close>
  does not raise, or no browser was held, \<open>start_scraping\<close> returns without an exception
  and the scraper holds no browser. When the scraper holds a browser and \<open>quit\<close> raises,
  the exception leaves \<open>start_scraping\<close> and the scraper still holds the browser.
\<close>

theorem close_driver_on_every_exit:
  "(\<exists>s1. start_scraping env s = close_driver (quit_fault env) s1 \<and> driver s1 = driver s) \<and>
   (driver s \<longrightarrow>
      (\<exists>cs. calls (state_of (start_scraping env s)) = calls s @ cs @ [Quit] \<and> Quit \<notin> set cs)) \<and>
   (quit_fault env = None \<or> \<not> driver s \<longrightarrow>
      raised (start_scraping env s) = None \<and> \<not> driver (state_of (start_scraping env s))) \<and>
   (\<forall>e. driver s \<and> quit_fault env = Some e \<longrightarrow>
      raised (start_scraping env s) = Some e \<and> driver (state_of (start_scraping env s)))"
proof -
  define s0 where "s0 = log_msg INFO ''Scraping will run for the duration in seconds.'' s"
  define r where "r = search_for_url (landing env) s0"
  define s1 where "s1 = (case r of
                           Raised e s' \<Rightarrow> log_msg ERROR ''Error in scraping process'' s'
                         | Ok url s' \<Rightarrow>
                             fetch_data (fetching env) url (s'\<lparr>url_crash_plane := url\<rparr>))"
  have run: "start_scraping env s = close_driver (quit_fault env) s1"
    by (simp add: start_scraping_def Let_def s0_def s1_def r_def)
  have k0: "keeps_browser s s0"
    unfolding s0_def by (intro keeps_steps keeps_browser_refl)
  have "keeps_browser s0 (state_of r)"
    unfolding r_def by (rule search_for_url_keeps)
  with k0 have ks: "keeps_browser s (state_of r)"
    by (rule keeps_browser_trans)
  have k: "keeps_browser s s1"
    unfolding s1_def using ks
    by (cases r) (auto simp: state_of_simps intro!: keeps_steps fetch_data_keeps)
  then obtain cs where d1: "driver s1 = driver s" and c1: "calls s1 = calls s @ cs"
    and nq: "Quit \<notin> set cs"
    by (auto simp: keeps_browser_def)
  have quit: "calls (state_of (close_driver (quit_fault env) s1)) = calls s @ cs @ [Quit]"
    if "driver s"
    using that d1 c1
    by (cases "quit_fault env")
       (simp_all add: close_driver_def Let_def state_of_simps browser_fields)
  have released: "raised (close_driver (quit_fault env) s1) = None \<and>
                  \<not> driver (state_of (close_driver (quit_fault env) s1))"
    if "quit_fault env = None \<or> \<not> driver s"
    using that d1
    by (auto simp: close_driver_def Let_def raised_def state_of_simps browser_fields)
  have kept: "raised (close_driver (quit_fault env) s1) = Some e \<and>
              driver (state_of (close_driver (quit_fault env) s1))"
    if "driver s \<and> quit_fault env = Some e" for e
    using that d1
    by (simp add: close_driver_def Let_def raised_def state_of_simps browser_fields)
  from d1 nq quit released kept show ?thesis
    unfolding run by blast
qed

theorem close_driver_on_every_exit_witness:
  "raised (start_scraping
            \<lparr>landing = (\<lambda>k. no_frame), fetching = fetch_of (\<lambda>i. steady full_page),
             quit_fault = None\<rparr> (session 10 0)) = None \<and>
   \<not> driver (state_of (start_scraping
            \<lparr>landing = (\<lambda>k. no_frame), fetching = fetch_of (\<lambda>i. steady full_page),
             quit_fault = None\<rparr> (session 10 0))) \<and>
   (\<exists>cs. calls (state_of (start_scraping
            \<lparr>landing = (\<lambda>k. no_frame), fetching = fetch_of (\<lambda>i. steady full_page),
             quit_fault = None\<rparr> (session 10 0))) = cs @ [Quit] \<and> Quit \<notin> set cs)"
proof -
  have "driver (session 10 0)" "calls (session 10 0) = []"
    by (simp_all add: session_def)
  then show ?thesis
    using close_driver_on_every_exit
      [of "\<lparr>landing = (\<lambda>k. no_frame), fetching = fetch_of (\<lambda>i. steady full_page),
            quit_fault = None\<rparr>"
          "session 10 0"]
    by auto
qed

text \<open>
  C8 (as stated) fails when \<open>quit\<close> raises. The landing page never shows the frame, the
  handler of \<open>start_scraping\<close> logs the failure and \<open>close_driver\<close> is called, but \<open>quit\<close>
  fails: its exception leaves \<open>start_scraping\<close> and the scraper still holds the browser.
\<close>

theorem quit_failure_keeps_browser:
  "raised (start_scraping
            \<lparr>landing = (\<lambda>k. no_frame), fetching = fetch_of (\<lambda>i. steady full_page),
             quit_fault = Some WebDriverException\<rparr> (session 10 0)) =
     Some WebDriverException \<and>
   driver (state_of (start_scraping
            \<lparr>landing = (\<lambda>k. no_frame), fetching = fetch_of (\<lambda>i. steady full_page),
             quit_fault = Some WebDriverException\<rparr> (session 10 0))) \<and>
   calls (state_of (start_scraping
            \<lparr>landing = (\<lambda>k. no_frame), fetching = fetch_of (\<lambda>i. steady full_page),
             quit_fault = Some WebDriverException\<rparr> (session 10 0))) =
     [Get base_url, WaitFor iframe_selector 30, Get base_url, WaitFor iframe_selector 10, Quit]"
  by code_simp

section \<open>The file names\<close>

lemma colon_not_digit: "CHR '':'' \<notin> set ''0123456789''"
  by simp

lemma zfill_no_colon: "CHR '':'' \<notin> set (zfill w (digits n))"
proof -
  have "set (digits n) \<subseteq> set ''0123456789''"
    using digits_chars [of n] by (rule conjunct1)
  with colon_not_digit have "CHR '':'' \<notin> set (digits n)" by blast
  then show ?thesis by (auto simp: zfill_def)
qed

lemma date_str_no_colon: "CHR '':'' \<notin> set (date_str t)"
proof -
  obtain y m d where "civil_from_days (t div 86400) = (y, m, d)"
    by (cases "civil_from_days (t div 86400)")
  then show ?thesis
    using zfill_no_colon by (simp add: date_str_def)
qed

lemma clock_fields_no_colon:
  "CHR '':'' \<notin> set (hh t)" "CHR '':'' \<notin> set (mm t)" "CHR '':'' \<notin> set (ss t)"
  using zfill_no_colon by (simp_all add: hh_def mm_def ss_def)

lemma strftime_underscore_no_colon: "CHR '':'' \<notin> set (strftime_underscore t)"
  using date_str_no_colon [of t] clock_fields_no_colon [of t]
  by (simp add: strftime_underscore_def)

lemma replace_colon_simps:
  "replace_colon [] = []"
  "replace_colon (c # cs) = (if c = CHR '':'' then CHR ''_'' else c) # replace_colon cs"
  by (simp_all add: replace_colon_def)

lemma replace_colon_id: "CHR '':'' \<notin> set s \<Longrightarrow> replace_colon s = s"
  by (induction s) (auto simp: replace_colon_def)

lemma replace_colon_append: "replace_colon (a @ b) = replace_colon a @ replace_colon b"
  by (simp add: replace_colon_def)

lemma replace_colon_timestamp:
  "replace_colon (get_timestamp t) = date_str t @ '' '' @ hh t @ ''_'' @ mm t @ ''_'' @ ss t"
  using date_str_no_colon [of t] clock_fields_no_colon [of t]
  by (simp add: get_timestamp_def strftime_colon_def replace_colon_append replace_colon_simps
        replace_colon_id)

lemma start_str_no_colon:
  "CHR '':'' \<notin> set (date_str t @ '' '' @ hh t @ ''_'' @ mm t @ ''_'' @ ss t)"
  using date_str_no_colon [of t] clock_fields_no_colon [of t] by simp

text \<open>
  C9 (as amended). Take a call that reads the wall clock as \<open>t\<close> (both of its readings),
  with the end \<open>t + duration\<close> inside the years that a date can hold. The name of the
  output file is its directory and \<open>data_brute_\<close>, the reading \<open>t\<close> as date and time with
  \<open>_\<close> in the place of each colon, \<open>_to_\<close>, the end \<open>t + duration\<close> as date and time, and
  \<open>.csv\<close>; the name of the log file is built in the same way. Neither name holds a colon.
  The names depend on the clock reading at the call, the duration and the flag only: any
  session with the same duration and flag gets the same names from the same reading.
\<close>

theorem file_names_from_clock_reading:
  assumes "add_seconds t (duration s) = Inr end_time"
  shows "get_output_file_name (t, t) s =
           Inr ((if live_prediction s then ''pipeline_ml/live_predictor/live_prediction/''
                 else []) @
                ''data_brute_'' @
                (date_str t @ '' '' @ hh t @ ''_'' @ mm t @ ''_'' @ ss t) @ ''_to_'' @
                strftime_underscore (t + duration s) @ ''.csv'') \<and>
         get_log_file_name (t, t) s =
           Inr ((if live_prediction s then ''pipeline_ml/live_predictor/live_prediction/''
                 else []) @
                ''logs/log_'' @ strftime_underscore t @ ''_to_'' @
                strftime_underscore (t + duration s) @ ''.txt'') \<and>
         (\<forall>name. get_output_file_name (t, t) s = Inr name \<or> get_log_file_name (t, t) s = Inr name
            \<longrightarrow> CHR '':'' \<notin> set name) \<and>
         (\<forall>s'. duration s' = duration s \<and> live_prediction s' = live_prediction s \<longrightarrow>
            get_output_file_name (t, t) s' = get_output_file_name (t, t) s \<and>
            get_log_file_name (t, t) s' = get_log_file_name (t, t) s)"
proof -
  have e: "end_time = t + duration s"
    using assms by (simp add: add_seconds_def split: if_splits)
  have out: "get_output_file_name (t, t) s =
           Inr ((if live_prediction s then ''pipeline_ml/live_predictor/live_prediction/''
                 else []) @
                ''data_brute_'' @
                (date_str t @ '' '' @ hh t @ ''_'' @ mm t @ ''_'' @ ss t) @ ''_to_'' @
                strftime_underscore (t + duration s) @ ''.csv'')"
    using assms by (simp add: get_output_file_name_def Let_def e replace_colon_timestamp)
  have log: "get_log_file_name (t, t) s =
           Inr ((if live_prediction s then ''pipeline_ml/live_predictor/live_prediction/''
                 else []) @
                ''logs/log_'' @ strftime_underscore t @ ''_to_'' @
                strftime_underscore (t + duration s) @ ''.txt'')"
    using assms by (simp add: get_log_file_name_def Let_def e)
  have no_colon: "CHR '':'' \<notin> set name"
    if "get_output_file_name (t, t) s = Inr name \<or> get_log_file_name (t, t) s = Inr name"
    for name
  proof -
    have dir: "CHR '':'' \<notin> set ''pipeline_ml/live_predictor/live_prediction/''"
      "CHR '':'' \<notin> set ''data_brute_''" "CHR '':'' \<notin> set ''logs/log_''"
      "CHR '':'' \<notin> set ''_to_''" "CHR '':'' \<notin> set ''.csv''" "CHR '':'' \<notin> set ''.txt''"
      by simp_all
    from that show ?thesis
    proof
      assume "get_output_file_name (t, t) s = Inr name"
      with out have "name =
          (if live_prediction s then ''pipeline_ml/live_predictor/live_prediction/'' else []) @
          ''data_brute_'' @ (date_str t @ '' '' @ hh t @ ''_'' @ mm t @ ''_'' @ ss t) @
          ''_to_'' @ strftime_underscore (t + duration s) @ ''.csv''"
        by simp
      then show ?thesis
        using dir start_str_no_colon [of t] strftime_underscore_no_colon [of "t + duration s"]
        by (simp only: set_append Un_iff split: if_splits) auto
    next
      assume "get_log_file_name (t, t) s = Inr name"
      with log have "name =
          (if live_prediction s then ''pipeline_ml/live_predictor/live_prediction/'' else []) @
          ''logs/log_'' @ strftime_underscore t @ ''_to_'' @
          strftime_underscore (t + duration s) @ ''.txt''"
        by simp
      then show ?thesis
        using dir strftime_underscore_no_colon [of t]
          strftime_underscore_no_colon [of "t + duration s"]
        by (simp only: set_append Un_iff split: if_splits) auto
    qed
  qed
  have same: "get_output_file_name (t, t) s' = get_output_file_name (t, t) s \<and>
              get_log_file_name (t, t) s' = get_log_file_name (t, t) s"
    if "duration s' = duration s \<and> live_prediction s' = live_prediction s" for s'
    using that
    by (simp add: get_output_file_name_def get_log_file_name_def Let_def split: sum.splits)
  from out log no_colon same show ?thesis by blast
qed

theorem file_names_from_clock_reading_witness:
  "get_output_file_name (1793779200, 1793779200) (session 10 0) =
     Inr ''data_brute_2026-11-04 08_00_00_to_2026-11-04_08_00_10.csv'' \<and>
   get_log_file_name (1793779200, 1793779200) (session 10 0) =
     Inr ''logs/log_2026-11-04_08_00_00_to_2026-11-04_08_00_10.txt''"
proof -
  have range: "add_seconds 1793779200 (duration (session 10 0)) = Inr 1793779210"
    by (simp add: add_seconds_def session_def min_datetime_def max_datetime_def)
  have parts:
    "date_str 1793779200 @ '' '' @ hh 1793779200 @ ''_'' @ mm 1793779200 @ ''_'' @ ss 1793779200
       = ''2026-11-04 08_00_00''"
    "strftime_underscore 1793779200 = ''2026-11-04_08_00_00''"
    "strftime_underscore (1793779200 + duration (session 10 0)) = ''2026-11-04_08_00_10''"
    "live_prediction (session 10 0) = False"
    by code_simp+
  from file_names_from_clock_reading [OF range] show ?thesis
    unfolding parts by simp
qed

text \<open>
  C9 (as stated) fails. The names are not derived from the start of the session: one
  session, asked for the name of its output file at 08:00:00 and again a minute later,
  gives two names, each with the time of the call as its start; and a session that
  started five seconds later gets the same name from the same reading of the clock.
\<close>

theorem file_name_follows_the_call:
  "get_output_file_name (1793779200, 1793779200) (session 10 0) =
     Inr ''data_brute_2026-11-04 08_00_00_to_2026-11-04_08_00_10.csv'' \<and>
   get_output_file_name (1793779260, 1793779260) (session 10 0) =
     Inr ''data_brute_2026-11-04 08_01_00_to_2026-11-04_08_01_10.csv'' \<and>
   get_output_file_name (1793779260, 1793779260) ((session 10 0)\<lparr>start_time := 5000\<rparr>) =
     Inr ''data_brute_2026-11-04 08_01_00_to_2026-11-04_08_01_10.csv''"
  by code_simp

section \<open>The dashboard and errors in the log\<close>

lemma error_reason: "contains (lower ''Scraping stopped due to an ERROR in logs.'') ''error''"
  by code_simp

lemma stop_on_error:
  "stop_scraping ''Scraping stopped due to an ERROR in logs.'' st =
     (st\<lparr>scraping_process :=
            (case scraping_process st of Some Alive \<Rightarrow> Some Terminated | other \<Rightarrow> other),
         scraping_started := False, scraping_error := True\<rparr>,
      [WarningBox ''Scraping stopped due to an ERROR in logs.''])"
  using error_reason by (simp add: stop_scraping_def Let_def)

text \<open>
  Before the duration has run out, an error line in the newest log ends the session in
  the error state: the child is not alive after the run, scraping is off and the error
  flag is set.
\<close>

lemma error_line_before_deadline:
  assumes "scraping_started st" and "\<not> scraping_error st"
    and "scraping_start_time st = Some t0" and "clicked tk \<noteq> StopScraping"
    and "0 \<le> time_now tk - t0" and "time_now tk - t0 < ui_duration ui * 1000"
    and "get_most_recent_log_file (log_dir tk) = Some f"
    and "list_ex (\<lambda>line. contains line '' - ERROR - '') (content f)"
  shows "scraping_error (state_after (run ui tk st)) \<and>
         \<not> scraping_started (state_after (run ui tk st)) \<and>
         scraping_process (state_after (run ui tk st)) \<noteq> Some Alive"
proof -
  define st0 where "st0 = observe tk st"
  have st0: "scraping_started st0" "\<not> scraping_error st0" "scraping_start_time st0 = Some t0"
    using assms(1,2,3) by (simp_all add: st0_def observe_def)
  have side: "draw_sidebar tk st0 = (st0, [])"
    using assms(4) by (simp add: draw_sidebar_def)
  have main: "main_controls tk st0 = (st0, [InfoBox ''Scraping is running...''])"
    using st0 by (simp add: main_controls_def)
  have nonempty: "content f \<noteq> []"
    using assms(8) by auto
  have logs: "display_logs (log_dir tk) st0 =
                stop_scraping ''Scraping stopped due to an ERROR in logs.'' st0"
    using assms(7,8) nonempty by (simp add: display_logs_def Let_def)
  have dur: "ui_duration ui \<noteq> 0" "0 < ui_duration ui"
    using assms(5,6) by auto
  have "state_after (run ui tk st) =
          fst (stop_scraping ''Scraping stopped due to an ERROR in logs.'' st0)"
    using st0 dur assms(5,6)
    by (simp add: run_def st0_def [symmetric] side handle_main_area_def main logs Let_def
          state_after_def stop_on_error)
  then show ?thesis
    by (auto simp: stop_on_error split: option.splits child.splits)
qed

text \<open>Once the error flag is set, a run without the stop control keeps it and draws no start control.\<close>

lemma error_state_stays:
  assumes "scraping_error st" and "clicked tk \<noteq> StopScraping"
  shows "state_after (run ui tk st) = observe tk st \<and>
         StartButton \<notin> set (drawn (run ui tk st))"
proof -
  have "scraping_error (observe tk st)"
    using assms(1) by (simp add: observe_def)
  then show ?thesis
    using assms(2)
    by (simp add: run_def draw_sidebar_def handle_main_area_def main_controls_def
          state_after_def drawn_def)
qed

text \<open>
  C5, at the input where the code departs from it. The session of one minute is running,
  its newest log holds an error line, and the dashboard is refreshed when the minute is
  over. The child is terminated, but the run leaves the error flag off: the stop for the
  error sets it, and the stop for the end of the duration, later in the same run, clears
  it. The next refresh draws the start control.
\<close>

theorem error_state_lost_at_deadline:
  "state_after (run one_minute (refresh_at 60000 error_log) scraping) =
     \<lparr>scraping_started = False, scraping_start_time = Some 0,
      scraping_process = Some Terminated, scraping_error = False\<rparr> \<and>
   drawn (run one_minute (refresh_at 61000 error_log)
            (state_after (run one_minute (refresh_at 60000 error_log) scraping))) =
     [StartButton]"
  by code_simp

end
